theory Spec2Isabelle
  imports Complex_Main "HOL-Library.Log_Nat" "HOL-Library.Sublist"
begin

section \<open>JavaScript strings and numbers\<close>

text \<open>
  A JavaScript string is modelled as a \<^typ>\<open>string\<close>: every \<^typ>\<open>char\<close> stands for one
  UTF-16 code unit, and the model covers exactly the strings whose code units are below 256.
  Numbers that the front end prints are non-negative integers or hundredths of them.
\<close>

definition digit_char :: "nat \<Rightarrow> char" where
  "digit_char d = ''0123456789'' ! d"

fun nat_to_string :: "nat \<Rightarrow> string" where
  "nat_to_string n =
     (if n < 10 then [digit_char n] else nat_to_string (n div 10) @ [digit_char (n mod 10)])"

declare nat_to_string.simps [simp del]

text \<open>
  \<open>hundredths_to_string n\<close> is the text JavaScript prints for the number \<open>n / 100\<close>
  (\<open>n\<close> a non-negative integer below \<open>10^23\<close>): the integer part, and the fraction without
  trailing zeros, as in \<^verbatim>\<open>1.5\<close>, \<^verbatim>\<open>9.77\<close> and \<^verbatim>\<open>2\<close>.
\<close>

definition hundredths_to_string :: "nat \<Rightarrow> string" where
  "hundredths_to_string n =
     nat_to_string (n div 100) @
     (if n mod 100 = 0 then []
      else if n mod 10 = 0 then CHR ''.'' # [digit_char (n mod 100 div 10)]
      else CHR ''.'' # [digit_char (n mod 100 div 10), digit_char (n mod 10)])"

text \<open>\<^verbatim>\<open>Math.round(x)\<close>: the nearest integer, a tie going up.\<close>

definition Math_round :: "real \<Rightarrow> int" where
  "Math_round x = \<lfloor>x + 1 / 2\<rfloor>"

section \<open>formatFileSize\<close>

text \<open>
  \<^verbatim>\<open>
  function formatFileSize(bytes) {
      if (bytes === 0) return '0 Bytes';
      const k = 1024;
      const sizes = ['Bytes', 'KB', 'MB'];
      const i = Math.floor(Math.log(bytes) / Math.log(k));
      return Math.round(bytes / Math.pow(k, i) * 100) / 100 + ' ' + sizes[i];
  }
  \<close>
  \<open>bytes\<close> is a file size, a natural number. The logarithms are those of the real numbers;
  the double-precision quotient of the source differs from the real one by a rounding error
  that cannot move it out of the interval the theorem below is about. Reading the array
  outside its three entries yields \<^verbatim>\<open>undefined\<close>, which the concatenation prints.
\<close>

definition k :: nat where
  "k = 1024"

definition sizes :: "string list" where
  "sizes = [''Bytes'', ''KB'', ''MB'']"

definition unit_index :: "nat \<Rightarrow> int" where
  "unit_index bytes = \<lfloor>ln (real bytes) / ln (real k)\<rfloor>"

definition sizes_at :: "int \<Rightarrow> string" where
  "sizes_at i = (if 0 \<le> i \<and> i < int (length sizes) then sizes ! nat i else ''undefined'')"

definition formatFileSize :: "nat \<Rightarrow> string" where
  "formatFileSize bytes =
     (if bytes = 0 then ''0 Bytes''
      else let i = unit_index bytes in
        hundredths_to_string (nat (Math_round (real bytes / (real k powr real_of_int i) * 100)))
          @ '' '' @ sizes_at i)"

subsection \<open>The unit index as integer arithmetic\<close>

lemma unit_index_floorlog:
  assumes "0 < bytes"
  shows "unit_index bytes = int (floorlog 1024 bytes) - 1"
proof -
  have "floorlog 1024 bytes = nat \<lfloor>log 1024 (real bytes)\<rfloor> + 1"
    using assms by (simp add: floorlog_def)
  moreover have "0 \<le> log 1024 (real bytes)"
    using assms by simp
  ultimately have "int (floorlog 1024 bytes) - 1 = \<lfloor>log 1024 (real bytes)\<rfloor>"
    by simp
  then show ?thesis
    by (simp add: unit_index_def k_def log_def)
qed

lemma unit_index_bounds:
  assumes "1 \<le> bytes" and "bytes \<le> 10 * 1024 * 1024"
  shows "0 \<le> unit_index bytes" and "unit_index bytes \<le> 2"
proof -
  have pos: "0 < bytes" using assms by simp
  have "bytes < 1024 ^ 3" using assms by simp
  then have "floorlog 1024 bytes \<le> 3"
    by (intro floorlog_leI) simp_all
  then show "unit_index bytes \<le> 2"
    by (simp add: unit_index_floorlog [OF pos])
  have "floorlog 1024 bytes \<noteq> 0"
    using pos by (simp add: floorlog_eq_zero_iff)
  then show "0 \<le> unit_index bytes"
    by (simp add: unit_index_floorlog [OF pos])
qed

lemma Math_round_quotient:
  fixes a b :: nat
  assumes "0 < b"
  shows "Math_round (real a / real b) = int ((2 * a + b) div (2 * b))"
proof -
  have "real a / real b + 1 / 2 = real (2 * a + b) / real (2 * b)"
    using assms by (simp add: field_simps)
  then have "Math_round (real a / real b) = \<lfloor>real (2 * a + b) / real (2 * b)\<rfloor>"
    by (simp add: Math_round_def)
  also have "\<dots> = int ((2 * a + b) div (2 * b))"
    by (rule floor_divide_of_nat_eq)
  finally show ?thesis .
qed

lemma formatFileSize_compute:
  assumes "0 < bytes"
  shows "formatFileSize bytes =
     (let i = floorlog 1024 bytes - 1 in
        hundredths_to_string ((200 * bytes + 1024 ^ i) div (2 * 1024 ^ i)) @ '' '' @
        sizes_at (int i))"
proof -
  define i where "i = floorlog 1024 bytes - 1"
  have fl: "floorlog 1024 bytes \<noteq> 0"
    using assms by (simp add: floorlog_eq_zero_iff)
  have idx: "unit_index bytes = int i"
    using fl by (simp add: unit_index_floorlog [OF assms] i_def)
  have pw: "real k powr real_of_int (int i) = real (1024 ^ i)"
    by (simp add: k_def powr_realpow)
  have "real bytes / (real k powr real_of_int (int i)) * 100 = real (100 * bytes) / real (1024 ^ i)"
    unfolding pw by simp
  then have "Math_round (real bytes / (real k powr real_of_int (int i)) * 100)
      = int ((2 * (100 * bytes) + 1024 ^ i) div (2 * 1024 ^ i))"
    using Math_round_quotient [of "1024 ^ i" "100 * bytes"] by simp
  then have "formatFileSize bytes =
      hundredths_to_string ((200 * bytes + 1024 ^ i) div (2 * 1024 ^ i)) @ '' '' @ sizes_at (int i)"
    using assms by (simp add: formatFileSize_def Let_def idx)
  then show ?thesis
    by (simp add: Let_def i_def)
qed

lemma formatFileSize_examples:
  "formatFileSize 1536 = ''1.5 KB''"
  "formatFileSize 10000 = ''9.77 KB''"
  "formatFileSize 1023 = ''1023 Bytes''"
  "formatFileSize 10485760 = ''10 MB''"
  "formatFileSize 2048 = ''2 KB''"
  by (simp_all add: formatFileSize_compute compute_floorlog hundredths_to_string_def
      nat_to_string.simps digit_char_def sizes_at_def sizes_def)

lemma sizes_at_cases:
  "sizes_at 0 = ''Bytes''" "sizes_at 1 = ''KB''" "sizes_at 2 = ''MB''"
  by (simp_all add: sizes_at_def sizes_def)

text \<open>
  Claim C10. For every size from 1 byte to 10 MiB the unit index is 0, 1 or 2, so the
  lookup in the three-entry unit array stays in bounds and the text returned ends in
  \<^verbatim>\<open>Bytes\<close>, \<^verbatim>\<open>KB\<close> or \<^verbatim>\<open>MB\<close>; for size 0 the text is \<^verbatim>\<open>0 Bytes\<close>.
\<close>

theorem formatFileSize_unit_in_bounds:
  "formatFileSize 0 = ''0 Bytes'' \<and>
   (1 \<le> bytes \<and> bytes \<le> 10 * 1024 * 1024 \<longrightarrow>
      unit_index bytes \<in> {0, 1, 2} \<and>
      nat (unit_index bytes) < length sizes \<and>
      sizes_at (unit_index bytes) = sizes ! nat (unit_index bytes) \<and>
      (\<exists>num. formatFileSize bytes = num @ '' '' @ sizes ! nat (unit_index bytes)) \<and>
      (suffix ''Bytes'' (formatFileSize bytes) \<or> suffix ''KB'' (formatFileSize bytes)
         \<or> suffix ''MB'' (formatFileSize bytes)))"
proof (intro conjI impI)
  show "formatFileSize 0 = ''0 Bytes''"
    by (simp add: formatFileSize_def)
next
  assume range: "1 \<le> bytes \<and> bytes \<le> 10 * 1024 * 1024"
  then have lo: "0 \<le> unit_index bytes" and hi: "unit_index bytes \<le> 2"
    using unit_index_bounds [of bytes] by simp_all
  then show idx: "unit_index bytes \<in> {0, 1, 2}"
    by auto
  show len: "nat (unit_index bytes) < length sizes"
    using lo hi by (simp add: sizes_def)
  show at: "sizes_at (unit_index bytes) = sizes ! nat (unit_index bytes)"
    using lo hi by (simp add: sizes_at_def sizes_def)
  have nz: "bytes \<noteq> 0" using range by simp
  show ex: "\<exists>num. formatFileSize bytes = num @ '' '' @ sizes ! nat (unit_index bytes)"
    using nz at by (simp add: formatFileSize_def Let_def)
  then obtain num where eq: "formatFileSize bytes = num @ '' '' @ sizes ! nat (unit_index bytes)"
    by blast
  from idx have "sizes ! nat (unit_index bytes) \<in> {''Bytes'', ''KB'', ''MB''}"
    by (auto simp: sizes_def)
  then show "suffix ''Bytes'' (formatFileSize bytes) \<or> suffix ''KB'' (formatFileSize bytes)
         \<or> suffix ''MB'' (formatFileSize bytes)"
    unfolding eq suffix_def by (metis append.assoc insertE singletonD)
qed

theorem formatFileSize_unit_in_bounds_witness:
  "(1::nat) \<le> 1536 \<and> (1536::nat) \<le> 10 * 1024 * 1024 \<and>
   unit_index 1536 \<in> {0, 1, 2} \<and> nat (unit_index 1536) < length sizes \<and>
   (suffix ''Bytes'' (formatFileSize 1536) \<or> suffix ''KB'' (formatFileSize 1536)
      \<or> suffix ''MB'' (formatFileSize 1536))"
  using formatFileSize_unit_in_bounds [of 1536] by simp

section \<open>Strings: the methods the scripts call\<close>

text \<open>
  \<^verbatim>\<open>toUpperCase\<close> is modelled on ASCII letters, where it does not depend on the locale;
  theorems that go through it assume that the text is ASCII. \<^verbatim>\<open>s.charAt(i)\<close> is the string
  of the one code unit at \<open>i\<close>, empty out of range; \<^verbatim>\<open>s.slice(i)\<close> drops \<open>i\<close> code units;
  \<^verbatim>\<open>s.split(c)\<close> cuts at every occurrence of the separator and always yields at least one
  piece; \<^verbatim>\<open>a.join(sep)\<close> puts the separator between the pieces.
\<close>

definition is_ascii :: "char \<Rightarrow> bool" where
  "is_ascii c = (\<not> digit7 c)"

definition ascii_upper :: "char \<Rightarrow> char" where
  "ascii_upper c =
     (case map_of (zip ''abcdefghijklmnopqrstuvwxyz'' ''ABCDEFGHIJKLMNOPQRSTUVWXYZ'') c of
        Some u \<Rightarrow> u | None \<Rightarrow> c)"

definition ascii_lower :: "char \<Rightarrow> char" where
  "ascii_lower c =
     (case map_of (zip ''ABCDEFGHIJKLMNOPQRSTUVWXYZ'' ''abcdefghijklmnopqrstuvwxyz'') c of
        Some l \<Rightarrow> l | None \<Rightarrow> c)"

definition toUpperCase :: "string \<Rightarrow> string" where
  "toUpperCase s = map ascii_upper s"

definition charAt :: "string \<Rightarrow> nat \<Rightarrow> string" where
  "charAt s i = take 1 (drop i s)"

definition slice_from :: "string \<Rightarrow> nat \<Rightarrow> string" where
  "slice_from s i = drop i s"

fun split :: "string \<Rightarrow> char \<Rightarrow> string list" where
  "split [] sep = [[]]"
| "split (x # xs) sep =
     (if x = sep then [] # split xs sep
      else (x # hd (split xs sep)) # tl (split xs sep))"

fun join :: "string list \<Rightarrow> string \<Rightarrow> string" where
  "join [] sep = []"
| "join [w] sep = w"
| "join (w # ws) sep = w @ sep @ join ws sep"

section \<open>Regular expressions\<close>

text \<open>
  The patterns of the scripts are built from single characters, the dot, sequence, alternative,
  the lazy star, one capture group and the end anchor. \<open>rmatch\<close> is the backtracking matcher
  of the language: it lists, in the order in which backtracking tries them, the ways the
  pattern matches a prefix of the input, each as the rest of the input and the text captured
  by the group. The first entry is the match that \<^verbatim>\<open>exec\<close> reports.

  With the flag \<^verbatim>\<open>i\<close> two characters are compared after \<open>canonicalize\<close>, which upper-cases;
  a code unit from 128 on never canonicalizes to an ASCII one, so the comparison with the
  ASCII characters of a pattern is exact. The dot matches everything but a line terminator.
  An iteration of the star that consumes nothing is abandoned.
\<close>

datatype regex = Eps | Chr char | Dot | Cat regex regex | Alt regex regex | LazyStar regex
  | Group regex | End

definition is_line_terminator :: "char \<Rightarrow> bool" where
  "is_line_terminator c = (c = CHR 0x0A \<or> c = CHR 0x0D)"

definition canonicalize :: "bool \<Rightarrow> char \<Rightarrow> char" where
  "canonicalize ignoreCase c = (if ignoreCase then ascii_upper c else c)"

fun rmatch :: "bool \<Rightarrow> regex \<Rightarrow> string \<Rightarrow> string option \<Rightarrow> (string \<times> string option) list" where
  "rmatch ic Eps s cap = [(s, cap)]"
| "rmatch ic (Chr c) s cap =
     (case s of [] \<Rightarrow> []
      | x # xs \<Rightarrow> if canonicalize ic x = canonicalize ic c then [(xs, cap)] else [])"
| "rmatch ic Dot s cap =
     (case s of [] \<Rightarrow> [] | x # xs \<Rightarrow> if is_line_terminator x then [] else [(xs, cap)])"
| "rmatch ic (Cat a b) s cap =
     concat (map (\<lambda>(s', cap'). rmatch ic b s' cap') (rmatch ic a s cap))"
| "rmatch ic (Alt a b) s cap = rmatch ic a s cap @ rmatch ic b s cap"
| "rmatch ic (LazyStar a) s cap =
     (s, cap) # concat (map (\<lambda>(s', cap').
        if length s' < length s then rmatch ic (LazyStar a) s' cap' else []) (rmatch ic a s cap))"
| "rmatch ic (Group a) s cap =
     map (\<lambda>(s', cap'). (s', Some (take (length s - length s') s))) (rmatch ic a s cap)"
| "rmatch ic End s cap = (if s = [] then [(s, cap)] else [])"

fun Str :: "string \<Rightarrow> regex" where
  "Str [] = Eps"
| "Str (c # cs) = Cat (Chr c) (Str cs)"

fun ngroups :: "regex \<Rightarrow> nat" where
  "ngroups (Cat a b) = ngroups a + ngroups b"
| "ngroups (Alt a b) = ngroups a + ngroups b"
| "ngroups (LazyStar a) = ngroups a"
| "ngroups (Group a) = Suc (ngroups a)"
| "ngroups _ = 0"

text \<open>
  \<open>exec_at\<close> is a match attempt at the start of the given text; \<open>test_from\<close> tries every
  start position from left to right, as \<^verbatim>\<open>s.match(re)\<close> does before its result is read as
  a truth value.
\<close>

definition exec_at :: "bool \<Rightarrow> regex \<Rightarrow> string \<Rightarrow> (string \<times> string option) option" where
  "exec_at ic r s = (case rmatch ic r s None of [] \<Rightarrow> None | m # _ \<Rightarrow> Some m)"

fun test_from :: "bool \<Rightarrow> regex \<Rightarrow> string \<Rightarrow> bool" where
  "test_from ic r [] = (exec_at ic r [] \<noteq> None)"
| "test_from ic r (x # xs) = (exec_at ic r (x # xs) \<noteq> None \<or> test_from ic r xs)"

text \<open>
  The replacement text of \<^verbatim>\<open>replace\<close>: \<^verbatim>\<open>$$\<close> is a dollar sign, \<^verbatim>\<open>$&\<close> the matched text and
  \<^verbatim>\<open>$1\<close> the captured text when the pattern has a group; the replacement texts of the
  scripts use no other form. \<open>replace_all\<close> is \<^verbatim>\<open>s.replace(re, repl)\<close> for a pattern with the
  flag \<^verbatim>\<open>g\<close>: the search goes on behind each match, and one code unit further when the match
  is empty.
\<close>

fun getSubstitution :: "nat \<Rightarrow> string \<Rightarrow> string \<Rightarrow> string option \<Rightarrow> string" where
  "getSubstitution m [] matched cap = []"
| "getSubstitution m [x] matched cap = [x]"
| "getSubstitution m (x # y # t) matched cap =
     (if x = CHR ''$'' \<and> y = CHR ''$'' then CHR ''$'' # getSubstitution m t matched cap
      else if x = CHR ''$'' \<and> y = CHR ''&'' then matched @ getSubstitution m t matched cap
      else if x = CHR ''$'' \<and> y = CHR ''1'' \<and> 1 \<le> m
        then (case cap of None \<Rightarrow> [] | Some c \<Rightarrow> c) @ getSubstitution m t matched cap
      else x # getSubstitution m (y # t) matched cap)"

function replace_all :: "bool \<Rightarrow> regex \<Rightarrow> string \<Rightarrow> string \<Rightarrow> string" where
  "replace_all ic r repl s =
     (case exec_at ic r s of
        None \<Rightarrow> (case s of [] \<Rightarrow> [] | x # xs \<Rightarrow> x # replace_all ic r repl xs)
      | Some (rest, cap) \<Rightarrow>
          if length rest < length s
          then getSubstitution (ngroups r) repl (take (length s - length rest) s) cap
                 @ replace_all ic r repl rest
          else getSubstitution (ngroups r) repl [] cap
                 @ (case s of [] \<Rightarrow> [] | x # xs \<Rightarrow> x # replace_all ic r repl xs))"
  by pat_completeness auto
termination
  by (relation "measure (\<lambda>(ic, r, repl, s). length s)") auto

declare replace_all.simps [simp del]

section \<open>The upload page: state\<close>

text \<open>
  The scripts keep their state in module-level variables, in the document and in the
  browser's storage. The model threads one record through every function. Two scripts
  define the upload page: \<^verbatim>\<open>src/app/static/app.js\<close> and the first script of
  \<^verbatim>\<open>src/unnamed/part_000\<close>; where their functions differ the model takes the script as an
  argument.

  Markup is kept as data: an element whose content a function writes is a field holding what
  was interpolated into the template, and the toast container holds every toast in the
  order in which it was appended (the timers that remove a toast later are not modelled).
  An error's message is kept symbolically where the browser chooses its text.
\<close>

datatype script = Static_app | Unnamed_part

datatype js_error = Error string | TypeError | SyntaxError | NetworkError

datatype toast_message = Plain string | With_error string js_error

record file_info =
  file_name :: string
  file_type :: string
  file_size :: nat

datatype upload_area = Upload_prompt | File_selected string string

text \<open>
  A value of the language, as far as \<^verbatim>\<open>JSON.parse\<close> can build one, and \<^verbatim>\<open>undefined\<close>.
  A number is kept as its literal, since the scripts never compute with a parsed number;
  an object lists its properties in insertion order, which is the order of enumeration for
  names that are not array indices.
\<close>

datatype jsval = JUndefined | JNull | JBool bool | JNum string | JStr string
  | JArr "jsval list" | JObj "(string \<times> jsval) list"

record chat_message =
  role :: string
  content :: jsval

datatype request =
    Process_document file_info
  | Chat string "string option" "chat_message list"

record upload_state =
  currentFile :: "file_info option"
  uploadBtn_disabled :: bool
  uploadArea :: upload_area
  toastContainer :: "(toast_message \<times> string) list"
  requests :: "request list"

definition showToast :: "toast_message \<Rightarrow> string \<Rightarrow> 'a upload_state_scheme \<Rightarrow> 'a upload_state_scheme" where
  "showToast message type st = st\<lparr>toastContainer := toastContainer st @ [(message, type)]\<rparr>"

section \<open>handleFile: the input validator\<close>

text \<open>
  \<^verbatim>\<open>
  function handleFile(file) {
      const validTypes = ['application/pdf', 'image/jpeg', 'image/jpg', 'image/png', 'text/plain'];
      if (!validTypes.includes(file.type) && !file.name.match(/\.(pdf|jpg|jpeg|png|txt)$/i)) {
          showToast('Invalid file type. Please upload PDF, JPG, PNG, or TXT files.', 'error');
          return;
      }
      if (file.size > 10 * 1024 * 1024) {
          showToast('File size too large. Maximum size is 10MB.', 'error');
          return;
      }
      currentFile = file;
      uploadBtn.disabled = false;
      uploadArea.innerHTML = `... ${file.name} ... ${formatFileSize(file.size)} ...`;
  }
  \<close>
  The function is the same in both scripts. \<open>handleUpload_begin\<close> is \<^verbatim>\<open>handleUpload\<close> up to
  its \<^verbatim>\<open>fetch\<close>: nothing happens without a staged file, otherwise the button is disabled
  and the staged file is posted.
\<close>

definition validTypes :: "string list" where
  "validTypes = [''application/pdf'', ''image/jpeg'', ''image/jpg'', ''image/png'', ''text/plain'']"

definition re_extension :: regex where
  "re_extension =
     Cat (Chr CHR ''.'')
       (Cat (Group (Alt (Str ''pdf'') (Alt (Str ''jpg'') (Alt (Str ''jpeg'')
          (Alt (Str ''png'') (Str ''txt''))))))
        End)"

definition handleFile :: "file_info \<Rightarrow> 'a upload_state_scheme \<Rightarrow> 'a upload_state_scheme" where
  "handleFile f st =
     (if file_type f \<notin> set validTypes \<and> \<not> test_from True re_extension (file_name f)
      then showToast (Plain ''Invalid file type. Please upload PDF, JPG, PNG, or TXT files.'')
             ''error'' st
      else if file_size f > 10 * 1024 * 1024
      then showToast (Plain ''File size too large. Maximum size is 10MB.'') ''error'' st
      else st\<lparr>currentFile := Some f, uploadBtn_disabled := False,
              uploadArea := File_selected (file_name f) (formatFileSize (file_size f))\<rparr>)"

definition handleUpload_begin :: "'a upload_state_scheme \<Rightarrow> 'a upload_state_scheme" where
  "handleUpload_begin st =
     (case currentFile st of
        None \<Rightarrow> st
      | Some f \<Rightarrow> st\<lparr>uploadBtn_disabled := True,
                         requests := requests st @ [Process_document f]\<rparr>)"

text \<open>
  The validator in the words of the specification: the declared media type is on the
  allow-list or the file name ends, whatever the case of its letters, in one of the
  extensions; and the size is at most 10 MiB.
\<close>

definition allowed_media_types :: "string set" where
  "allowed_media_types =
     {''application/pdf'', ''image/jpeg'', ''image/jpg'', ''image/png'', ''text/plain''}"

definition allowed_extensions :: "string list" where
  "allowed_extensions = [''pdf'', ''jpg'', ''jpeg'', ''png'', ''txt'']"

definition has_allowed_extension :: "string \<Rightarrow> bool" where
  "has_allowed_extension name =
     list_ex (\<lambda>ext. suffix (CHR ''.'' # ext) (map ascii_lower name)) allowed_extensions"

definition validate :: "file_info \<Rightarrow> bool" where
  "validate f =
     ((file_type f \<in> allowed_media_types \<or> has_allowed_extension (file_name f))
      \<and> file_size f \<le> 10 * 2 ^ 20)"

lemma ascii_upper_other: "c \<notin> set ''abcdefghijklmnopqrstuvwxyz'' \<Longrightarrow> ascii_upper c = c"
  by (simp add: ascii_upper_def)

lemma ascii_lower_other: "c \<notin> set ''ABCDEFGHIJKLMNOPQRSTUVWXYZ'' \<Longrightarrow> ascii_lower c = c"
  by (simp add: ascii_lower_def)

lemma ascii_lower_upper [simp]: "ascii_lower (ascii_upper c) = ascii_lower c"
proof (cases "c \<in> set ''abcdefghijklmnopqrstuvwxyz''")
  case True
  then show ?thesis
    by (auto simp: ascii_lower_def ascii_upper_def)
next
  case False
  then have "ascii_upper c = c"
    by (rule ascii_upper_other)
  then show ?thesis
    by simp
qed

lemma ascii_upper_lower [simp]: "ascii_upper (ascii_lower c) = ascii_upper c"
proof (cases "c \<in> set ''ABCDEFGHIJKLMNOPQRSTUVWXYZ''")
  case True
  then show ?thesis
    by (auto simp: ascii_lower_def ascii_upper_def)
next
  case False
  then have "ascii_lower c = c"
    by (rule ascii_lower_other)
  then show ?thesis
    by simp
qed

lemma upper_eq_iff_lower_eq: "ascii_upper x = ascii_upper y \<longleftrightarrow> ascii_lower x = ascii_lower y"
  by (metis ascii_lower_upper ascii_upper_lower)

lemma map_upper_eq_iff_lower_eq:
  "map ascii_upper xs = map ascii_upper ys \<longleftrightarrow> map ascii_lower xs = map ascii_lower ys"
proof (induction xs arbitrary: ys)
  case Nil
  then show ?case by auto
next
  case (Cons x xs)
  then show ?case by (cases ys) (auto simp: upper_eq_iff_lower_eq)
qed

lemma rmatch_Str:
  "rmatch ic (Str w) s cap =
     (if length w \<le> length s \<and> map (canonicalize ic) (take (length w) s) = map (canonicalize ic) w
      then [(drop (length w) s, cap)] else [])"
proof (induction w arbitrary: s)
  case Nil
  show ?case by simp
next
  case (Cons c w)
  show ?case by (cases s) (auto simp: Cons.IH)
qed

lemma test_from_suffix:
  "test_from ic r s \<longleftrightarrow> (\<exists>t. suffix t s \<and> exec_at ic r t \<noteq> None)"
  by (induction s) (auto simp: suffix_Cons)

lemma canonicalize_dot:
  "canonicalize True x = canonicalize True CHR ''.'' \<longleftrightarrow> x = CHR ''.''"
  by (auto simp: canonicalize_def ascii_upper_def split: option.splits if_splits)

lemma canonicalize_True: "canonicalize True = ascii_upper"
  by (rule ext) (simp add: canonicalize_def)

lemma exec_at_None_iff: "exec_at ic r s = None \<longleftrightarrow> rmatch ic r s None = []"
  by (simp add: exec_at_def split: list.splits)

lemma rmatch_Cat_End:
  "rmatch ic (Cat r End) s cap = filter (\<lambda>m. fst m = []) (rmatch ic r s cap)"
proof -
  have "concat (map (\<lambda>m. rmatch ic End (fst m) (snd m)) ms) = filter (\<lambda>m. fst m = []) ms" for ms
    by (induction ms) auto
  then show ?thesis by (simp add: case_prod_unfold)
qed

lemma rmatch_Group_fst:
  "map fst (rmatch ic (Group r) s cap) = map fst (rmatch ic r s cap)"
  by (simp add: case_prod_unfold comp_def)

lemma filter_fst_Nil_iff:
  "filter (\<lambda>m. fst m = []) ms \<noteq> [] \<longleftrightarrow> [] \<in> set (map fst ms)"
  by (induction ms) auto

lemma Str_exact:
  "[] \<in> set (map fst (rmatch ic (Str w) s cap)) \<longleftrightarrow> map (canonicalize ic) s = map (canonicalize ic) w"
proof (cases "map (canonicalize ic) s = map (canonicalize ic) w")
  case True
  then have "length s = length w"
    by (rule map_eq_imp_length_eq)
  with True show ?thesis
    by (simp add: rmatch_Str)
next
  case False
  have "length w \<le> length s \<and> map (canonicalize ic) (take (length w) s) = map (canonicalize ic) w
      \<and> drop (length w) s = [] \<Longrightarrow> map (canonicalize ic) s = map (canonicalize ic) w"
    by auto
  with False show ?thesis
    by (auto simp: rmatch_Str)
qed

lemma exec_at_re_extension:
  "exec_at True re_extension s \<noteq> None \<longleftrightarrow>
     (\<exists>ext \<in> set allowed_extensions. map ascii_upper s = map ascii_upper (CHR ''.'' # ext))"
proof (cases s)
  case Nil
  then show ?thesis by (simp add: exec_at_None_iff re_extension_def allowed_extensions_def)
next
  case (Cons x xs)
  let ?alts = "Alt (Str ''pdf'') (Alt (Str ''jpg'') (Alt (Str ''jpeg'') (Alt (Str ''png'') (Str ''txt''))))"
  have alts: "[] \<in> set (map fst (rmatch True ?alts xs None)) \<longleftrightarrow>
      (\<exists>ext \<in> set allowed_extensions. map ascii_upper xs = map ascii_upper ext)"
    unfolding rmatch.simps(5) map_append set_append Un_iff Str_exact
    by (simp add: allowed_extensions_def canonicalize_True)
  have "rmatch True re_extension (x # xs) None \<noteq> [] \<longleftrightarrow>
      x = CHR ''.'' \<and> [] \<in> set (map fst (rmatch True (Group ?alts) xs None))"
    unfolding re_extension_def rmatch.simps(4) [of _ "Chr _"] rmatch.simps(2)
    by (simp add: canonicalize_dot rmatch_Cat_End filter_fst_Nil_iff del: rmatch.simps)
  also have "\<dots> \<longleftrightarrow> x = CHR ''.'' \<and>
      (\<exists>ext \<in> set allowed_extensions. map ascii_upper xs = map ascii_upper ext)"
    unfolding rmatch_Group_fst alts ..
  also have "\<dots> \<longleftrightarrow>
      (\<exists>ext \<in> set allowed_extensions. map ascii_upper (x # xs) = map ascii_upper (CHR ''.'' # ext))"
    using canonicalize_dot [of x] by (auto simp: canonicalize_def)
  finally show ?thesis by (simp add: Cons exec_at_None_iff)
qed

lemma lower_allowed_extension:
  "ext \<in> set allowed_extensions \<Longrightarrow> map ascii_lower (CHR ''.'' # ext) = CHR ''.'' # ext"
  by (auto simp: allowed_extensions_def ascii_lower_def)

lemma suffix_map_lower:
  "(\<exists>t. suffix t s \<and> map ascii_lower t = e) \<longleftrightarrow> suffix e (map ascii_lower s)"
proof
  assume "\<exists>t. suffix t s \<and> map ascii_lower t = e"
  then show "suffix e (map ascii_lower s)"
    by (auto simp: suffix_def)
next
  assume "suffix e (map ascii_lower s)"
  then obtain p where p: "map ascii_lower s = p @ e"
    by (auto simp: suffix_def)
  then have "map ascii_lower (drop (length p) s) = e"
    by (metis append_eq_conv_conj drop_map)
  moreover have "suffix (drop (length p) s) s"
    by (rule suffix_drop)
  ultimately show "\<exists>t. suffix t s \<and> map ascii_lower t = e"
    by blast
qed

lemma match_extension_iff:
  "test_from True re_extension name \<longleftrightarrow> has_allowed_extension name"
proof -
  have "test_from True re_extension name \<longleftrightarrow>
      (\<exists>t. suffix t name \<and> (\<exists>ext \<in> set allowed_extensions.
          map ascii_lower t = CHR ''.'' # ext))"
    unfolding test_from_suffix exec_at_re_extension map_upper_eq_iff_lower_eq
    using lower_allowed_extension by (metis (no_types, lifting))
  also have "\<dots> \<longleftrightarrow> (\<exists>ext \<in> set allowed_extensions.
      \<exists>t. suffix t name \<and> map ascii_lower t = CHR ''.'' # ext)"
    unfolding Bex_def by meson
  also have "\<dots> \<longleftrightarrow> has_allowed_extension name"
    unfolding suffix_map_lower by (simp add: has_allowed_extension_def list_ex_iff)
  finally show ?thesis .
qed

lemma set_validTypes: "set validTypes = allowed_media_types"
  by (auto simp: validTypes_def allowed_media_types_def)

lemma handleFile_accepts_iff:
  "(file_type f \<notin> set validTypes \<and> \<not> test_from True re_extension (file_name f)) \<or>
     file_size f > 10 * 1024 * 1024 \<longleftrightarrow> \<not> validate f"
  by (auto simp: validate_def set_validTypes match_extension_iff)

text \<open>
  Claim C4. A file is accepted exactly when its declared media type is on the allow-list or
  its name carries one of the extensions, and its size is at most 10 MiB. An accepted file
  is staged. A rejected file changes nothing but the toast container: the staged file, the
  upload button and the upload area stay as they were and no request is issued, and with
  nothing staged before, pressing the upload button issues none either.
\<close>

theorem handleFile_validates:
  "(validate f \<longrightarrow>
      handleFile f st = st\<lparr>currentFile := Some f, uploadBtn_disabled := False,
        uploadArea := File_selected (file_name f) (formatFileSize (file_size f))\<rparr>) \<and>
   (\<not> validate f \<longrightarrow>
      (\<exists>message. handleFile f st = showToast message ''error'' st) \<and>
      currentFile (handleFile f st) = currentFile st \<and>
      uploadBtn_disabled (handleFile f st) = uploadBtn_disabled st \<and>
      uploadArea (handleFile f st) = uploadArea st \<and>
      requests (handleFile f st) = requests st \<and>
      (currentFile st = None \<longrightarrow> requests (handleUpload_begin (handleFile f st)) = requests st))"
proof (intro conjI impI)
  assume "validate f"
  then have "\<not> ((file_type f \<notin> set validTypes \<and> \<not> test_from True re_extension (file_name f)) \<or>
     file_size f > 10 * 1024 * 1024)"
    using handleFile_accepts_iff [of f] by simp
  then show "handleFile f st = st\<lparr>currentFile := Some f, uploadBtn_disabled := False,
        uploadArea := File_selected (file_name f) (formatFileSize (file_size f))\<rparr>"
    by (auto simp: handleFile_def)
next
  assume "\<not> validate f"
  then have rej: "(file_type f \<notin> set validTypes \<and> \<not> test_from True re_extension (file_name f)) \<or>
     file_size f > 10 * 1024 * 1024"
    using handleFile_accepts_iff [of f] by simp
  then show toast: "\<exists>message. handleFile f st = showToast message ''error'' st"
    by (auto simp: handleFile_def)
  then obtain message where eq: "handleFile f st = showToast message ''error'' st"
    by blast
  show "currentFile (handleFile f st) = currentFile st"
    by (simp add: eq showToast_def)
  show "uploadBtn_disabled (handleFile f st) = uploadBtn_disabled st"
    by (simp add: eq showToast_def)
  show "uploadArea (handleFile f st) = uploadArea st"
    by (simp add: eq showToast_def)
  show "requests (handleFile f st) = requests st"
    by (simp add: eq showToast_def)
  show "requests (handleUpload_begin (handleFile f st)) = requests st" if "currentFile st = None"
    using that by (simp add: eq showToast_def handleUpload_begin_def)
qed

definition idle :: upload_state where
  "idle = \<lparr>currentFile = None, uploadBtn_disabled = True, uploadArea = Upload_prompt,
     toastContainer = [], requests = []\<rparr>"

lemma validate_examples:
  "validate \<lparr>file_name = ''Report.PDF'', file_type = [], file_size = 2048\<rparr>"
  "validate \<lparr>file_name = ''scan'', file_type = ''image/png'', file_size = 10 * 2 ^ 20\<rparr>"
  "\<not> validate \<lparr>file_name = ''scan.png'', file_type = ''image/png'', file_size = 15 * 2 ^ 20\<rparr>"
  "\<not> validate \<lparr>file_name = ''archive.zip'', file_type = ''application/zip'', file_size = 1\<rparr>"
  by (simp_all add: validate_def allowed_media_types_def has_allowed_extension_def
      allowed_extensions_def ascii_lower_def suffix_to_prefix)

theorem handleFile_validates_witness:
  "validate \<lparr>file_name = ''Report.PDF'', file_type = [], file_size = 2048\<rparr> \<and>
   handleFile \<lparr>file_name = ''Report.PDF'', file_type = [], file_size = 2048\<rparr> idle =
     \<lparr>currentFile = Some \<lparr>file_name = ''Report.PDF'', file_type = [], file_size = 2048\<rparr>,
      uploadBtn_disabled = False, uploadArea = File_selected ''Report.PDF'' ''2 KB'',
      toastContainer = [], requests = []\<rparr> \<and>
   \<not> validate \<lparr>file_name = ''scan.png'', file_type = ''image/png'', file_size = 15 * 2 ^ 20\<rparr> \<and>
   currentFile (handleFile
     \<lparr>file_name = ''scan.png'', file_type = ''image/png'', file_size = 15 * 2 ^ 20\<rparr> idle) = None \<and>
   requests (handleUpload_begin (handleFile
     \<lparr>file_name = ''scan.png'', file_type = ''image/png'', file_size = 15 * 2 ^ 20\<rparr> idle)) = []"
  using
    handleFile_validates [of "\<lparr>file_name = ''Report.PDF'', file_type = [], file_size = 2048\<rparr>" idle]
    handleFile_validates [of
      "\<lparr>file_name = ''scan.png'', file_type = ''image/png'', file_size = 15 * 2 ^ 20\<rparr>" idle]
    validate_examples(1,3) formatFileSize_examples(5)
  by (simp add: idle_def)

section \<open>formatMessageContent\<close>

text \<open>
  \<^verbatim>\<open>
  function formatMessageContent(content) {
      return content
          .replace(/\*\*(.*?)\*\*/g, '<strong>$1</strong>')
          .replace(/\n/g, '<br>');
  }
  \<close>
  The function is defined twice, in the script of the upload page and in that of the
  document page, with the same text.
\<close>

definition re_bold :: regex where
  "re_bold =
     Cat (Chr CHR ''*'') (Cat (Chr CHR ''*'') (Cat (Group (LazyStar Dot))
       (Cat (Chr CHR ''*'') (Chr CHR ''*''))))"

definition formatMessageContent :: "string \<Rightarrow> string" where
  "formatMessageContent msg =
     replace_all False (Chr CHR 0x0A) ''<br>''
       (replace_all False re_bold ''<strong>$1</strong>'' msg)"

text \<open>
  The same transform read off the claim: going through the text from the left, a pair of
  asterisks opens an emphasis when another pair follows on the same line; the nearest such
  pair closes it, and the text between them is put between \<^verbatim>\<open><strong>\<close> and
  \<^verbatim>\<open></strong>\<close>. Then every newline becomes \<^verbatim>\<open><br>\<close>. Every other character is copied.
\<close>

fun closing :: "string \<Rightarrow> (string \<times> string) option" where
  "closing [] = None"
| "closing (c # cs) =
     (if c = CHR ''*'' \<and> take 1 cs = ''*'' then Some ([], drop 1 cs)
      else if is_line_terminator c then None
      else map_option (\<lambda>(x, r). (c # x, r)) (closing cs))"

lemma closing_length: "closing s = Some (x, r) \<Longrightarrow> length r < length s"
proof (induction s arbitrary: x)
  case Nil
  then show ?case by simp
next
  case (Cons c cs)
  then show ?case
    by (fastforce split: if_splits)
qed

function emphasise :: "string \<Rightarrow> string" where
  "emphasise [] = []"
| "emphasise (c # cs) =
     (if c = CHR ''*'' \<and> take 1 cs = ''*''
      then (case closing (drop 1 cs) of
              Some (x, r) \<Rightarrow> ''<strong>'' @ x @ ''</strong>'' @ emphasise r
            | None \<Rightarrow> c # emphasise cs)
      else c # emphasise cs)"
  by pat_completeness auto
termination
proof (relation "measure length")
  fix c cs x2 x r
  assume "closing (drop 1 cs) = Some x2" and "(x, r) = x2"
  then have "length r < length (drop 1 cs)"
    using closing_length [of "drop 1 cs" x r] by simp
  then show "(r, c # cs) \<in> measure length"
    by simp
qed simp_all

definition line_breaks :: "string \<Rightarrow> string" where
  "line_breaks s = concat (map (\<lambda>c. if c = CHR 0x0A then ''<br>'' else [c]) s)"

definition markup :: "string \<Rightarrow> string" where
  "markup s = line_breaks (emphasise s)"

subsection \<open>Replacing a single character\<close>

lemma exec_at_Chr:
  "exec_at ic (Chr c) s =
     (case s of [] \<Rightarrow> None
      | x # xs \<Rightarrow> if canonicalize ic x = canonicalize ic c then Some (xs, None) else None)"
  by (simp add: exec_at_def split: list.splits)

lemma replace_all_Chr:
  "replace_all ic (Chr c) repl s =
     concat (map (\<lambda>x. if canonicalize ic x = canonicalize ic c
                       then getSubstitution 0 repl [x] None else [x]) s)"
proof (induction s)
  case Nil
  show ?case by (subst replace_all.simps) (simp add: exec_at_Chr)
next
  case (Cons x xs)
  show ?case by (subst replace_all.simps) (simp add: exec_at_Chr Cons.IH)
qed

lemma getSubstitution_plain:
  "CHR ''$'' \<notin> set repl \<Longrightarrow> getSubstitution m repl matched cap = repl"
  by (induction m repl matched cap rule: getSubstitution.induct) auto

lemma replace_all_Chr_plain:
  "CHR ''$'' \<notin> set repl \<Longrightarrow>
   replace_all False (Chr c) repl s = concat (map (\<lambda>x. if x = c then repl else [x]) s)"
  by (simp add: replace_all_Chr getSubstitution_plain canonicalize_def cong: if_cong)

subsection \<open>The emphasis pattern\<close>

fun lazy_dot_tails :: "string \<Rightarrow> string list" where
  "lazy_dot_tails [] = [[]]"
| "lazy_dot_tails (c # cs) = (c # cs) # (if is_line_terminator c then [] else lazy_dot_tails cs)"

lemma rmatch_LazyStar_Dot:
  "rmatch ic (LazyStar Dot) t cap = map (\<lambda>s'. (s', cap)) (lazy_dot_tails t)"
  by (induction t) simp_all

lemma lazy_dot_tails_length: "s' \<in> set (lazy_dot_tails t) \<Longrightarrow> length s' \<le> length t"
  by (induction t) (auto split: if_splits)

definition close_at :: "string \<Rightarrow> string \<Rightarrow> string \<Rightarrow> (string \<times> string option) list" where
  "close_at p t s' =
     (if take 2 s' = ''**'' then [(drop 2 s', Some (p @ take (length t - length s') t))] else [])"

lemma close_at_Cons:
  assumes "length s' \<le> length cs"
  shows "close_at p (c # cs) s' = close_at (p @ [c]) cs s'"
  using assms by (simp add: close_at_def Suc_diff_le)

lemma first_close:
  "(case concat (map (close_at p t) (lazy_dot_tails t)) of [] \<Rightarrow> None | m # _ \<Rightarrow> Some m) =
     map_option (\<lambda>(x, r). (r, Some (p @ x))) (closing t)"
proof (induction t arbitrary: p)
  case Nil
  show ?case by (simp add: close_at_def)
next
  case (Cons c cs)
  show ?case
  proof (cases "c = CHR ''*'' \<and> take 1 cs = ''*''")
    case True
    then obtain r where "cs = CHR ''*'' # r"
      by (cases cs) auto
    with True show ?thesis
      by (simp add: close_at_def)
  next
    case False
    then have no: "close_at p (c # cs) (c # cs) = []"
      by (cases cs) (auto simp: close_at_def)
    show ?thesis
    proof (cases "is_line_terminator c")
      case True
      with False no show ?thesis by simp
    next
      case lt: False
      have "map (close_at p (c # cs)) (lazy_dot_tails cs) =
          map (close_at (p @ [c]) cs) (lazy_dot_tails cs)"
        by (rule map_cong [OF refl]) (simp add: close_at_Cons lazy_dot_tails_length)
      then have eq: "concat (map (close_at p (c # cs)) (lazy_dot_tails (c # cs))) =
          concat (map (close_at (p @ [c]) cs) (lazy_dot_tails cs))"
        using lt no by (simp only: lazy_dot_tails.simps if_False list.map concat.simps append_Nil)
      have cl: "closing (c # cs) = map_option (\<lambda>(x, r). (c # x, r)) (closing cs)"
        using False lt by auto
      show ?thesis
        unfolding eq cl Cons.IH [of "p @ [c]"]
        by (simp add: option.map_comp comp_def case_prod_unfold)
    qed
  qed
qed

lemma rmatch_re_bold:
  "rmatch False re_bold (CHR ''*'' # CHR ''*'' # t) None =
     concat (map (close_at [] t) (lazy_dot_tails t))"
proof -
  have tail: "rmatch False (Cat (Chr CHR ''*'') (Chr CHR ''*'')) s' cap' =
      (if take 2 s' = ''**'' then [(drop 2 s', cap')] else [])" for s' cap'
  proof (cases s')
    case Nil
    then show ?thesis by simp
  next
    case (Cons a u)
    then show ?thesis by (cases u) (auto simp: canonicalize_def)
  qed
  have "rmatch False (Cat (Group (LazyStar Dot)) (Cat (Chr CHR ''*'') (Chr CHR ''*''))) t None =
      concat (map (close_at [] t) (lazy_dot_tails t))"
    unfolding rmatch.simps(4) [of _ "Group _"] rmatch.simps(7) rmatch_LazyStar_Dot tail
    by (simp add: comp_def close_at_def [abs_def] cong: if_cong)
  then show ?thesis
    by (simp add: re_bold_def canonicalize_def del: rmatch.simps(7))
qed

lemma exec_at_re_bold:
  "exec_at False re_bold s =
     (if take 2 s = ''**'' then map_option (\<lambda>(x, r). (r, Some x)) (closing (drop 2 s)) else None)"
proof (cases "take 2 s = ''**''")
  case True
  then obtain t where s: "s = CHR ''*'' # CHR ''*'' # t"
    by (cases s; cases "tl s") auto
  show ?thesis
    using first_close [of "[]" t] by (simp add: s exec_at_def rmatch_re_bold)
next
  case False
  have "rmatch False re_bold s None = []"
  proof (cases s)
    case Nil
    then show ?thesis by (simp add: re_bold_def)
  next
    case (Cons a u)
    with False show ?thesis
      by (cases u) (auto simp: re_bold_def canonicalize_def)
  qed
  with False show ?thesis
    by (simp add: exec_at_def)
qed

lemma closing_decompose:
  "closing t = Some (x, r) \<Longrightarrow> t = x @ ''**'' @ r"
proof (induction t arbitrary: x)
  case Nil
  then show ?case by simp
next
  case (Cons c cs)
  show ?case
  proof (cases "c = CHR ''*'' \<and> take 1 cs = ''*''")
    case True
    then obtain u where "cs = CHR ''*'' # u"
      by (cases cs) auto
    with True Cons.prems show ?thesis by simp
  next
    case False
    with Cons.prems obtain x' where "closing cs = Some (x', r)" and "x = c # x'"
      by (auto split: if_splits)
    with Cons.IH [of x'] show ?thesis by simp
  qed
qed

lemma ngroups_re_bold: "ngroups re_bold = 1"
  by (simp add: re_bold_def)

lemma substitute_strong:
  "getSubstitution (Suc n) ''<strong>$1</strong>'' matched (Some x) = ''<strong>'' @ x @ ''</strong>''"
  by simp

lemma replace_all_re_bold:
  "replace_all False re_bold ''<strong>$1</strong>'' s = emphasise s"
proof (induction s rule: emphasise.induct)
  case 1
  show ?case
    by (subst replace_all.simps) (simp add: exec_at_re_bold)
next
  case (2 c cs)
  show ?case
  proof (cases "c = CHR ''*'' \<and> take 1 cs = ''*''")
    case False
    then have ex: "exec_at False re_bold (c # cs) = None"
      by (cases cs) (auto simp: exec_at_re_bold)
    have em: "emphasise (c # cs) = c # emphasise cs"
      using False by auto
    have "replace_all False re_bold ''<strong>$1</strong>'' cs = emphasise cs"
      using "2.IH" False by blast
    then show ?thesis
      unfolding em by (subst replace_all.simps) (simp add: ex)
  next
    case True
    then obtain t where cs: "cs = CHR ''*'' # t" and c: "c = CHR ''*''"
      by (cases cs) auto
    have dr: "drop 1 cs = t"
      by (simp add: cs)
    have ex: "exec_at False re_bold (c # cs) = map_option (\<lambda>(x, r). (r, Some x)) (closing t)"
      by (simp add: exec_at_re_bold c cs)
    have em: "emphasise (c # cs) =
        (case closing t of
           Some (x, r) \<Rightarrow> ''<strong>'' @ x @ ''</strong>'' @ emphasise r
         | None \<Rightarrow> c # emphasise cs)"
      using True by (simp only: emphasise.simps dr simp_thms if_True)
    show ?thesis
    proof (cases "closing t")
      case None
      have "closing (drop 1 cs) = None"
        using None dr by simp
      then have "replace_all False re_bold ''<strong>$1</strong>'' cs = emphasise cs"
        using "2.IH" True by blast
      moreover have "replace_all False re_bold ''<strong>$1</strong>'' (c # cs) =
          c # replace_all False re_bold ''<strong>$1</strong>'' cs"
        by (subst replace_all.simps) (simp add: ex None)
      ultimately show ?thesis
        by (simp only: em None option.case)
    next
      case (Some m)
      obtain x r where m: "m = (x, r)"
        by (cases m)
      have len: "length r < length (c # cs)"
        using Some m closing_length [of t x r] by (simp add: cs)
      have "closing (drop 1 cs) = Some m"
        using Some dr by simp
      then have ih: "replace_all False re_bold ''<strong>$1</strong>'' r = emphasise r"
        using "2.IH" True m by blast
      have "replace_all False re_bold ''<strong>$1</strong>'' (c # cs) =
          ''<strong>'' @ x @ ''</strong>'' @ replace_all False re_bold ''<strong>$1</strong>'' r"
        using len
        by (subst replace_all.simps)
          (simp add: ex Some m ngroups_re_bold substitute_strong del: getSubstitution.simps)
      then show ?thesis
        by (simp only: em Some m option.case prod.case ih)
    qed
  qed
qed

text \<open>
  Claim C9. \<open>formatMessageContent\<close> is the transform described: each \<^verbatim>\<open>**x**\<close>, matched
  lazily from the left within a line, becomes \<^verbatim>\<open><strong>x</strong>\<close>, each newline becomes
  \<^verbatim>\<open><br>\<close>, and every other character is copied as it is. It is a function of its
  argument alone.
\<close>

theorem formatMessageContent_markup:
  "formatMessageContent s = markup s"
  by (simp add: formatMessageContent_def markup_def replace_all_re_bold replace_all_Chr_plain
      line_breaks_def)

lemma emphasise_no_asterisk: "CHR ''*'' \<notin> set s \<Longrightarrow> emphasise s = s"
  by (induction s) auto

lemma line_breaks_no_newline: "CHR 0x0A \<notin> set s \<Longrightarrow> line_breaks s = s"
  by (induction s) (auto simp: line_breaks_def)

lemma markup_examples:
  "markup ''a **b** c'' = ''a <strong>b</strong> c''"
  "markup ''<script>alert(1)</script> & **<i>**'' =
     ''<script>alert(1)</script> & <strong><i></strong>''"
  "markup [CHR ''x'', CHR 0x0A, CHR ''y''] = ''x<br>y''"
  "markup ''***a** **b'' = ''<strong>*a</strong> **b''"
  by (simp_all add: markup_def line_breaks_def is_line_terminator_def)

theorem formatMessageContent_markup_witness:
  "formatMessageContent ''<script>alert(1)</script> & **<i>**'' =
     ''<script>alert(1)</script> & <strong><i></strong>''"
  using formatMessageContent_markup [of "''<script>alert(1)</script> & **<i>**''"]
  by (simp only: markup_examples(2))

section \<open>The upload page: displaying a result\<close>

text \<open>
  The rest of the state of the upload page: the module variables \<^verbatim>\<open>recentDocuments\<close> and
  \<^verbatim>\<open>mainChatHistory\<close>, the stored item of \<^verbatim>\<open>localStorage\<close>, and the elements the scripts
  write. A badge is its text and its class. The element \<^verbatim>\<open>recentDocs\<close> may be missing from
  the document, which one of the scripts checks; the other elements are taken to exist.
\<close>

datatype metadata_item = Metadata_item string string | Metadata_missing string

datatype info_value = Scalar string | Items "string list"

datatype value_markup = Span string | Ul "string list"

datatype extracted_item = Extracted_item string value_markup

record document_item =
  item_id :: jsval
  item_class :: string
  item_category :: string
  item_urgency :: jsval
  item_timestamp :: jsval

datatype recent_view = Empty_state | Document_items "document_item list"

record page = upload_state +
  recentDocuments :: jsval
  mainChatHistory :: "chat_message list"
  localStorage :: "string \<rightharpoonup> string"
  resultsSection_hidden :: bool
  docId :: string
  category_badge :: "string \<times> string"
  urgency_badge :: "string \<times> string"
  department_text :: string
  immediate :: bool
  customerInfo :: "metadata_item list"
  extractedInfo :: "extracted_item list"
  recentDocs :: "recent_view option"
  chatMessagesMain :: "(string \<times> string) list"
  chatInputMain_value :: string
  chatInputMain_disabled :: bool
  chatBtnMain_disabled :: bool
  chatBtnMain_text :: string
  chatBtnMain_spinner_hidden :: bool

text \<open>
  The reply of \<^verbatim>\<open>POST /process-document\<close> as the scripts read it. The confidence score
  is left out: its display is floating-point formatting. A metadata value is a string or
  \<^verbatim>\<open>null\<close>; the members \<^verbatim>\<open>metadata\<close>, \<^verbatim>\<open>extracted_info\<close> and \<^verbatim>\<open>alerts\<close> may be absent.
\<close>

record process_result =
  document_id :: string
  category :: string
  urgency :: string
  department :: string
  requires_immediate_attention :: bool
  metadata :: "(string \<times> string option) list option"
  extracted_info :: "(string \<times> info_value option) list option"
  alerts :: "string list option"

text \<open>
  \<^verbatim>\<open>
  function formatCategory(category) {
      return category
          .replace(/_/g, ' ')
          .split(' ')
          .map(word => word.charAt(0).toUpperCase() + word.slice(1))
          .join(' ');
  }
  \<close>
  \<^verbatim>\<open>formatLabel\<close> has the same body. \<^verbatim>\<open>formatValue\<close> renders an array as a list and
  anything else as a span.
\<close>

definition formatCategory :: "string \<Rightarrow> string" where
  "formatCategory name =
     join (map (\<lambda>word. toUpperCase (charAt word 0) @ slice_from word 1)
            (split (replace_all False (Chr CHR ''_'') '' '' name) CHR '' '')) '' ''"

definition formatLabel :: "string \<Rightarrow> string" where
  "formatLabel key =
     join (map (\<lambda>word. toUpperCase (charAt word 0) @ slice_from word 1)
            (split (replace_all False (Chr CHR ''_'') '' '' key) CHR '' '')) '' ''"

definition formatValue :: "info_value \<Rightarrow> value_markup" where
  "formatValue v = (case v of Items xs \<Rightarrow> Ul xs | Scalar s \<Rightarrow> Span s)"

text \<open>
  \<^verbatim>\<open>
  function displayResults(result) {
      resultsSection.hidden = false;
      document.getElementById('docId').textContent = result.document_id;
      categoryBadge.textContent = formatCategory(result.category);
      categoryBadge.className = `result-value badge ${result.category}`;
      urgencyBadge.textContent = result.urgency.toUpperCase();
      urgencyBadge.className = `result-value badge ${result.urgency}`;
      document.getElementById('department').textContent = result.department;
      document.getElementById('immediate').textContent = result.requires_immediate_attention ? ...;
      if (result.alerts && result.alerts.length > 0) {              // part_000 only
          result.alerts.forEach(alert => { showToast(alert, 'warning'); });
      }
      customerInfo.innerHTML = '';
      if (result.metadata) {
          Object.entries(result.metadata).forEach(([key, value]) => {
              if (value) { customerInfo.innerHTML += `... ${formatLabel(key)} ... ${value} ...`; }
              else { customerInfo.innerHTML += `... missing ... ${formatLabel(key)} ...`; }   // part_000 only
          });
      }
      extractedInfo.innerHTML = '';
      if (result.extracted_info) {
          Object.entries(result.extracted_info).forEach(([key, value]) => {
              if (value) { extractedInfo.innerHTML += `... ${formatLabel(key)} ... ${formatValue(value)} ...`; }
          });
      }
  }
  \<close>
  The block that shows the alerts and the \<^verbatim>\<open>else\<close> branch that shows a missing value are in
  \<^verbatim>\<open>src/unnamed/part_000\<close> and not in \<^verbatim>\<open>src/app/static/app.js\<close>. A value is truthy when
  it is neither \<^verbatim>\<open>null\<close> nor the empty string; an array is always truthy.
\<close>

definition truthy_string :: "string option \<Rightarrow> bool" where
  "truthy_string v = (case v of None \<Rightarrow> False | Some s \<Rightarrow> s \<noteq> [])"

definition truthy_info :: "info_value option \<Rightarrow> bool" where
  "truthy_info v = (case v of None \<Rightarrow> False | Some (Scalar s) \<Rightarrow> s \<noteq> [] | Some (Items xs) \<Rightarrow> True)"

definition metadata_rows :: "script \<Rightarrow> string \<times> string option \<Rightarrow> metadata_item list" where
  "metadata_rows script entry =
     (case entry of (key, value) \<Rightarrow>
        if truthy_string value then [Metadata_item (formatLabel key) (the value)]
        else if script = Unnamed_part then [Metadata_missing (formatLabel key)]
        else [])"

definition extracted_rows :: "string \<times> info_value option \<Rightarrow> extracted_item list" where
  "extracted_rows entry =
     (case entry of (key, value) \<Rightarrow>
        if truthy_info value then [Extracted_item (formatLabel key) (formatValue (the value))]
        else [])"

definition show_alerts :: "string list option \<Rightarrow> 'a upload_state_scheme \<Rightarrow> 'a upload_state_scheme" where
  "show_alerts field st =
     (case field of
        None \<Rightarrow> st
      | Some messages \<Rightarrow>
          if length messages > 0
          then foldl (\<lambda>st alert. showToast (Plain alert) ''warning'' st) st messages
          else st)"

definition displayResults :: "script \<Rightarrow> process_result \<Rightarrow> page \<Rightarrow> page" where
  "displayResults script result st =
     (let st1 = st\<lparr>resultsSection_hidden := False,
                   docId := document_id result,
                   category_badge :=
                     (formatCategory (category result), ''result-value badge '' @ category result),
                   urgency_badge :=
                     (toUpperCase (urgency result), ''result-value badge '' @ urgency result),
                   department_text := department result,
                   immediate := requires_immediate_attention result\<rparr>;
          st2 = (if script = Unnamed_part then show_alerts (alerts result) st1 else st1)
      in st2\<lparr>customerInfo :=
                (case metadata result of None \<Rightarrow> []
                 | Some entries \<Rightarrow> concat (map (metadata_rows script) entries)),
              extractedInfo :=
                (case extracted_info result of None \<Rightarrow> []
                 | Some entries \<Rightarrow> concat (map extracted_rows entries))\<rparr>)"

text \<open>
  The label in the words of the claim: every underscore and every space separates words
  and is shown as a space; the first character of a word is upper-cased and the others are
  left as they are.
\<close>

fun capitalize_words :: "bool \<Rightarrow> string \<Rightarrow> string" where
  "capitalize_words start [] = []"
| "capitalize_words start (c # cs) =
     (if c = CHR ''_'' \<or> c = CHR '' '' then CHR '' '' # capitalize_words True cs
      else (if start then ascii_upper c else c) # capitalize_words False cs)"

definition a_page :: page where
  "a_page =
     \<lparr>currentFile = None, uploadBtn_disabled = True, uploadArea = Upload_prompt,
      toastContainer = [], requests = [],
      recentDocuments = JArr [], mainChatHistory = [], localStorage = Map.empty,
      resultsSection_hidden = True, docId = [], category_badge = ([], []),
      urgency_badge = ([], []), department_text = [], immediate = False,
      customerInfo = [], extractedInfo = [], recentDocs = Some Empty_state,
      chatMessagesMain = [], chatInputMain_value = [], chatInputMain_disabled = False,
      chatBtnMain_disabled = False, chatBtnMain_text = ''Send'',
      chatBtnMain_spinner_hidden = True\<rparr>"

definition a_result :: process_result where
  "a_result =
     \<lparr>document_id = ''doc-1'', category = ''loan_applications'', urgency = ''high'',
      department = ''loans'', requires_immediate_attention = True,
      metadata = Some [(''customer_id'', None), (''account_number'', Some ''DE89'')],
      extracted_info = None,
      alerts = Some [''a1'', ''a2'']\<rparr>"

lemma split_not_Nil [simp]: "split s sep \<noteq> []"
  by (induction s) auto

lemma join_Cons: "join (w # ws) sep = (if ws = [] then w else w @ sep @ join ws sep)"
  by (cases ws) auto

definition capitalize :: "string \<Rightarrow> string" where
  "capitalize word = toUpperCase (charAt word 0) @ slice_from word 1"

lemma capitalize_simps [simp]:
  "capitalize [] = []" "capitalize (c # cs) = ascii_upper c # cs"
  by (simp_all add: capitalize_def toUpperCase_def charAt_def slice_from_def)

lemma join_capitalize_words:
  "join ((if start then capitalize (hd (split (map (\<lambda>x. if x = CHR ''_'' then CHR '' '' else x) s) CHR '' ''))
          else hd (split (map (\<lambda>x. if x = CHR ''_'' then CHR '' '' else x) s) CHR '' ''))
         # map capitalize (tl (split (map (\<lambda>x. if x = CHR ''_'' then CHR '' '' else x) s) CHR '' ''))) '' ''
   = capitalize_words start s"
proof (induction s arbitrary: start)
  case Nil
  show ?case by simp
next
  case (Cons c cs)
  let ?t = "split (map (\<lambda>x. if x = CHR ''_'' then CHR '' '' else x) cs) CHR '' ''"
  have ne: "?t \<noteq> []" by simp
  then obtain w ws where t: "?t = w # ws"
    by (cases ?t) auto
  show ?case
  proof (cases "c = CHR ''_'' \<or> c = CHR '' ''")
    case True
    then show ?thesis
      using Cons.IH [of True] t by (auto simp: join_Cons)
  next
    case False
    then show ?thesis
      using Cons.IH [of False] t by (auto simp: join_Cons)
  qed
qed

lemma replace_underscores:
  "replace_all False (Chr CHR ''_'') '' '' s = map (\<lambda>x. if x = CHR ''_'' then CHR '' '' else x) s"
proof -
  have "concat (map (\<lambda>x. if x = CHR ''_'' then '' '' else [x]) s) =
      map (\<lambda>x. if x = CHR ''_'' then CHR '' '' else x) s"
    by (induction s) auto
  then show ?thesis
    by (simp add: replace_all_Chr_plain)
qed

lemma formatCategory_capitalize_words: "formatCategory s = capitalize_words True s"
proof -
  let ?t = "split (map (\<lambda>x. if x = CHR ''_'' then CHR '' '' else x) s) CHR '' ''"
  have "?t \<noteq> []" by simp
  then have "map capitalize ?t = capitalize (hd ?t) # map capitalize (tl ?t)"
    by (cases ?t) auto
  then have "join (map capitalize ?t) '' '' = capitalize_words True s"
    using join_capitalize_words [of True s] by simp
  then show ?thesis
    by (simp add: formatCategory_def replace_underscores capitalize_def [abs_def])
qed

lemma formatLabel_capitalize_words: "formatLabel s = capitalize_words True s"
  using formatCategory_capitalize_words [of s] by (simp add: formatLabel_def formatCategory_def)

lemma label_examples:
  "formatCategory ''loan_applications'' = ''Loan Applications''"
  "formatCategory ''kyc_updates'' = ''Kyc Updates''"
  "formatCategory ''LOAN_apps'' = ''LOAN Apps''"
  "formatLabel ''customer_id'' = ''Customer Id''"
  "formatLabel ''account_number'' = ''Account Number''"
  "toUpperCase ''high'' = ''HIGH''"
  by (simp_all add: formatCategory_capitalize_words formatLabel_capitalize_words ascii_upper_def
      toUpperCase_def)

subsection \<open>Alerts\<close>

lemma foldl_showToast:
  "foldl (\<lambda>st alert. showToast (Plain alert) ''warning'' st) st xs =
     st\<lparr>toastContainer := toastContainer st @ map (\<lambda>a. (Plain a, ''warning'')) xs\<rparr>"
  by (induction xs arbitrary: st) (simp_all add: showToast_def)

lemma show_alerts_toasts:
  "show_alerts field st =
     st\<lparr>toastContainer := toastContainer st @
        map (\<lambda>a. (Plain a, ''warning'')) (case field of None \<Rightarrow> [] | Some xs \<Rightarrow> xs)\<rparr>"
  by (cases field) (auto simp: show_alerts_def foldl_showToast)

lemma displayResults_alerts:
  "toastContainer (displayResults Unnamed_part result st) =
     toastContainer st @
       map (\<lambda>a. (Plain a, ''warning'')) (case alerts result of None \<Rightarrow> [] | Some xs \<Rightarrow> xs)"
  by (simp add: displayResults_def Let_def show_alerts_toasts)

lemma displayResults_static_no_alerts:
  "toastContainer (displayResults Static_app result st) = toastContainer st"
  by (simp add: displayResults_def Let_def)

text \<open>
  Claim C6. In \<^verbatim>\<open>src/unnamed/part_000\<close> every alert of a result becomes a warning toast, in
  the order of the array (\<open>displayResults_alerts\<close>). The \<^verbatim>\<open>displayResults\<close> of
  \<^verbatim>\<open>src/app/static/app.js\<close> shows none: for a result with the alerts \<^verbatim>\<open>a1\<close> and \<^verbatim>\<open>a2\<close> its
  toast container stays empty, where the other script appends the two toasts.
\<close>

theorem displayResults_alerts_at_a_result:
  "alerts a_result = Some [''a1'', ''a2''] \<and>
   toastContainer (displayResults Static_app a_result a_page) = [] \<and>
   toastContainer (displayResults Unnamed_part a_result a_page) =
     [(Plain ''a1'', ''warning''), (Plain ''a2'', ''warning'')]"
  by (simp add: displayResults_alerts displayResults_static_no_alerts a_result_def a_page_def)

subsection \<open>Metadata rows\<close>

definition metadata_row :: "string \<times> string option \<Rightarrow> metadata_item" where
  "metadata_row entry =
     (case entry of
        (key, None) \<Rightarrow> Metadata_missing (formatLabel key)
      | (key, Some v) \<Rightarrow>
          if v = [] then Metadata_missing (formatLabel key) else Metadata_item (formatLabel key) v)"

lemma metadata_rows_part: "metadata_rows Unnamed_part entry = [metadata_row entry]"
  by (cases entry) (auto simp: metadata_rows_def metadata_row_def truthy_string_def
      split: option.splits)

lemma displayResults_metadata:
  "customerInfo (displayResults Unnamed_part result st) =
     (case metadata result of None \<Rightarrow> [] | Some entries \<Rightarrow> map metadata_row entries)"
proof -
  have "concat (map (metadata_rows Unnamed_part) entries) = map metadata_row entries" for entries
    by (induction entries) (simp_all add: metadata_rows_part)
  then show ?thesis
    by (simp add: displayResults_def Let_def split: option.splits)
qed

lemma displayResults_static_metadata:
  "customerInfo (displayResults Static_app result st) =
     (case metadata result of None \<Rightarrow> []
      | Some entries \<Rightarrow> map metadata_row (filter (\<lambda>entry. truthy_string (snd entry)) entries))"
proof -
  have "concat (map (metadata_rows Static_app) entries) =
      map metadata_row (filter (\<lambda>entry. truthy_string (snd entry)) entries)" for entries
    by (induction entries)
      (auto simp: metadata_rows_def metadata_row_def truthy_string_def split: option.splits)
  then show ?thesis
    by (simp add: displayResults_def Let_def split: option.splits)
qed

text \<open>
  Claim C2. In \<^verbatim>\<open>src/unnamed/part_000\<close> every key of the metadata gets a row, with its value
  or, when the value is \<^verbatim>\<open>null\<close> or empty, with the missing indicator
  (\<open>displayResults_metadata\<close>). The \<^verbatim>\<open>displayResults\<close> of \<^verbatim>\<open>src/app/static/app.js\<close> skips
  such a key: for the metadata \<^verbatim>\<open>{customer_id: null, account_number: "DE89"}\<close> it renders
  the one row of the account number, where the other script renders both rows.
\<close>

theorem displayResults_metadata_at_a_result:
  "metadata a_result = Some [(''customer_id'', None), (''account_number'', Some ''DE89'')] \<and>
   customerInfo (displayResults Static_app a_result a_page) =
     [Metadata_item ''Account Number'' ''DE89''] \<and>
   customerInfo (displayResults Unnamed_part a_result a_page) =
     [Metadata_missing ''Customer Id'', Metadata_item ''Account Number'' ''DE89'']"
  by (simp add: displayResults_metadata displayResults_static_metadata a_result_def
      metadata_row_def truthy_string_def label_examples)

subsection \<open>Labels\<close>

text \<open>
  Claim C8, as the code has it. The category label is the category with every underscore
  shown as a space and the first character of every word upper-cased, the other characters
  unchanged; the urgency is shown upper-cased as a whole, in both scripts. Upper-casing is
  that of ASCII letters, which no locale changes.
\<close>

theorem labels_of_result:
  "list_all is_ascii (category result) \<and> list_all is_ascii (urgency result) \<longrightarrow>
     formatCategory (category result) = capitalize_words True (category result) \<and>
     fst (category_badge (displayResults script result st)) =
       capitalize_words True (category result) \<and>
     fst (urgency_badge (displayResults script result st)) = map ascii_upper (urgency result)"
  by (cases script)
    (simp_all add: displayResults_def Let_def show_alerts_toasts formatCategory_capitalize_words
      toUpperCase_def)

theorem labels_of_result_witness:
  "list_all is_ascii (category a_result) \<and> list_all is_ascii (urgency a_result) \<and>
   fst (category_badge (displayResults Unnamed_part a_result a_page)) = ''Loan Applications'' \<and>
   fst (urgency_badge (displayResults Unnamed_part a_result a_page)) = ''HIGH''"
  using labels_of_result [of a_result Unnamed_part a_page]
  by (simp add: a_result_def is_ascii_def ascii_upper_def)

text \<open>
  Claim C8 as stated fails for the urgency: \<^verbatim>\<open>high\<close> is shown as \<^verbatim>\<open>HIGH\<close>, not as
  \<^verbatim>\<open>High\<close>.
\<close>

theorem urgency_label_counterexample:
  "urgency a_result = ''high'' \<and>
   fst (urgency_badge (displayResults Unnamed_part a_result a_page)) = ''HIGH'' \<and>
   fst (urgency_badge (displayResults Static_app a_result a_page)) = ''HIGH'' \<and>
   fst (urgency_badge (displayResults Unnamed_part a_result a_page)) \<noteq> ''High''"
  by (simp add: displayResults_def Let_def show_alerts_toasts a_result_def label_examples)

section \<open>The conversational assistant\<close>

text \<open>
  A chat turn is \<^verbatim>\<open>handleChat\<close> on the upload page and \<^verbatim>\<open>sendMessage\<close> on the document page.
  Both are asynchronous: they run up to the \<^verbatim>\<open>fetch\<close>, and go on when the reply is there.
  The model has one function for each half and takes the reply as an argument: the request
  fails in the network, or it resolves to a response that is \<^verbatim>\<open>ok\<close> or not and whose body
  is JSON or not.

  Reading a property of \<^verbatim>\<open>null\<close> or \<^verbatim>\<open>undefined\<close> throws; an object yields the value of
  the property or \<^verbatim>\<open>undefined\<close>; for the property names of these scripts every other value
  yields \<^verbatim>\<open>undefined\<close>. \<^verbatim>\<open>trim\<close> removes white space and line terminators at both ends.
\<close>

datatype fetch_result = Rejected | Resolved bool "jsval option"

definition get_property :: "jsval \<Rightarrow> string \<Rightarrow> js_error + jsval" where
  "get_property v key =
     (case v of
        JUndefined \<Rightarrow> Inl TypeError
      | JNull \<Rightarrow> Inl TypeError
      | JObj members \<Rightarrow> Inr (case map_of members key of None \<Rightarrow> JUndefined | Some x \<Rightarrow> x)
      | _ \<Rightarrow> Inr JUndefined)"

definition is_white_space :: "char \<Rightarrow> bool" where
  "is_white_space c \<longleftrightarrow>
     c \<in> set [CHR 0x09, CHR 0x0A, CHR 0x0B, CHR 0x0C, CHR 0x0D, CHR 0x20, CHR 0xA0]"

definition trim :: "string \<Rightarrow> string" where
  "trim s = rev (dropWhile is_white_space (rev (dropWhile is_white_space s)))"

subsection \<open>The upload page: handleChat\<close>

text \<open>
  \<^verbatim>\<open>
  async function handleChat() {
      const query = chatInputMain.value.trim();
      if (!query) return;
      addChatMessage('user', query);
      chatInputMain.value = '';
      chatBtnMain.disabled = true;  chatInputMain.disabled = true;
      btnText.textContent = 'Thinking...';  spinner.hidden = false;
      try {
          const response = await fetch(`${API_BASE}/chat`, { method: 'POST', ...,
              body: JSON.stringify({ query: query, chat_history: mainChatHistory }) });
          if (!response.ok) { throw new Error('Chat request failed'); }
          const data = await response.json();
          addChatMessage('assistant', data.response);
          mainChatHistory.push({ role: 'user', content: query });
          mainChatHistory.push({ role: 'assistant', content: data.response });
      } catch (error) {
          showToast(`Chat error: ${error.message}`, 'error');
          addChatMessage('assistant', 'Sorry, I encountered an error. Please try again.');
      } finally {
          chatBtnMain.disabled = false;  chatInputMain.disabled = false;
          btnText.textContent = 'Send';  spinner.hidden = true;
      }
  }
  function addChatMessage(role, content) {
      messageElement.className = `chat-message ${role}`;
      messageElement.innerHTML = `... ${formatMessageContent(content)} ...`;
      chatMessagesMain.appendChild(messageElement);
  }
  \<close>
  \<^verbatim>\<open>formatMessageContent\<close> calls \<^verbatim>\<open>replace\<close> on its argument, which throws a \<^verbatim>\<open>TypeError\<close>
  unless the argument is a string. The request is recorded with the query and the transcript
  it carries.
\<close>

definition append_chat_message :: "string \<Rightarrow> string \<Rightarrow> page \<Rightarrow> page" where
  "append_chat_message r s st =
     st\<lparr>chatMessagesMain := chatMessagesMain st @ [(''chat-message '' @ r, formatMessageContent s)]\<rparr>"

definition addChatMessage :: "string \<Rightarrow> jsval \<Rightarrow> page \<Rightarrow> js_error + page" where
  "addChatMessage r c st =
     (case c of JStr s \<Rightarrow> Inr (append_chat_message r s st) | _ \<Rightarrow> Inl TypeError)"

definition handleChat_begin :: "page \<Rightarrow> page \<times> string option" where
  "handleChat_begin st =
     (let query = trim (chatInputMain_value st) in
      if query = [] then (st, None)
      else
        (append_chat_message ''user'' query st
           \<lparr>chatInputMain_value := [], chatBtnMain_disabled := True,
            chatInputMain_disabled := True, chatBtnMain_text := ''Thinking...'',
            chatBtnMain_spinner_hidden := False,
            requests := requests st @ [Chat query None (mainChatHistory st)]\<rparr>,
         Some query))"

definition handleChat_try :: "string \<Rightarrow> fetch_result \<Rightarrow> page \<Rightarrow> js_error \<times> page + page" where
  "handleChat_try query reply st =
     (case reply of
        Rejected \<Rightarrow> Inl (NetworkError, st)
      | Resolved ok body \<Rightarrow>
          if \<not> ok then Inl (Error ''Chat request failed'', st)
          else (case body of
              None \<Rightarrow> Inl (SyntaxError, st)
            | Some data \<Rightarrow>
                (case get_property data ''response'' of
                   Inl e \<Rightarrow> Inl (e, st)
                 | Inr answer \<Rightarrow>
                     (case addChatMessage ''assistant'' answer st of
                        Inl e \<Rightarrow> Inl (e, st)
                      | Inr st1 \<Rightarrow>
                          Inr (st1\<lparr>mainChatHistory := mainChatHistory st1 @
                                 [\<lparr>role = ''user'', content = JStr query\<rparr>,
                                  \<lparr>role = ''assistant'', content = answer\<rparr>]\<rparr>)))))"

definition handleChat_end :: "string \<Rightarrow> fetch_result \<Rightarrow> page \<Rightarrow> page" where
  "handleChat_end query reply st =
     (let st1 = (case handleChat_try query reply st of
                   Inr st' \<Rightarrow> st'
                 | Inl (e, st') \<Rightarrow>
                     append_chat_message ''assistant''
                       ''Sorry, I encountered an error. Please try again.''
                       (showToast (With_error ''Chat error: '' e) ''error'' st'))
      in st1\<lparr>chatBtnMain_disabled := False, chatInputMain_disabled := False,
             chatBtnMain_text := ''Send'', chatBtnMain_spinner_hidden := True\<rparr>)"

definition handleChat :: "fetch_result \<Rightarrow> page \<Rightarrow> page" where
  "handleChat reply st =
     (case handleChat_begin st of
        (st', None) \<Rightarrow> st'
      | (st', Some query) \<Rightarrow> handleChat_end query reply st')"

subsection \<open>The document page: sendMessage\<close>

text \<open>
  \<^verbatim>\<open>
  async function sendMessage() {
      const message = chatInput.value.trim();
      if (!message) return;
      addMessageToChat('user', message);
      chatInput.value = '';
      sendBtn.disabled = true;  chatInput.disabled = true;
      btnText.textContent = 'Thinking...';  spinner.hidden = false;
      try {
          const response = await fetch(`${API_BASE}/chat`, { method: 'POST', ...,
              body: JSON.stringify({ query: message, document_id: documentId,
                                     chat_history: chatHistory }) });
          if (!response.ok) { throw new Error('Chat request failed'); }
          const data = await response.json();
          chatHistory.push({ role: 'user', content: message });
          chatHistory.push({ role: 'assistant', content: data.response });
          addMessageToChat('assistant', data.response);
      } catch (error) {
          showToast(`Error: ${error.message}`, 'error');
          addMessageToChat('assistant', 'Sorry, I encountered an error. Please try again.');
      } finally {
          sendBtn.disabled = false;  chatInput.disabled = false;
          btnText.textContent = 'Send';  spinner.hidden = true;
      }
  }
  \<close>
  Here the transcript is extended before the answer is rendered, and the user's message is
  pushed before \<^verbatim>\<open>data.response\<close> is read. The page is only set up with a document
  identifier, which every request carries.
\<close>

record detail_page =
  documentId :: string
  chatHistory :: "chat_message list"
  chatMessages :: "(string \<times> string) list"
  chatInput_value :: string
  chatInput_disabled :: bool
  sendBtn_disabled :: bool
  sendBtn_text :: string
  sendBtn_spinner_hidden :: bool
  toasts :: "(toast_message \<times> string) list"
  sent :: "request list"

definition append_message :: "string \<Rightarrow> string \<Rightarrow> detail_page \<Rightarrow> detail_page" where
  "append_message r s st =
     st\<lparr>chatMessages := chatMessages st @ [(''message '' @ r, formatMessageContent s)]\<rparr>"

definition addMessageToChat :: "string \<Rightarrow> jsval \<Rightarrow> detail_page \<Rightarrow> js_error + detail_page" where
  "addMessageToChat r c st =
     (case c of JStr s \<Rightarrow> Inr (append_message r s st) | _ \<Rightarrow> Inl TypeError)"

definition sendMessage_begin :: "detail_page \<Rightarrow> detail_page \<times> string option" where
  "sendMessage_begin st =
     (let message = trim (chatInput_value st) in
      if message = [] then (st, None)
      else
        (append_message ''user'' message st
           \<lparr>chatInput_value := [], sendBtn_disabled := True, chatInput_disabled := True,
            sendBtn_text := ''Thinking...'', sendBtn_spinner_hidden := False,
            sent := sent st @ [Chat message (Some (documentId st)) (chatHistory st)]\<rparr>,
         Some message))"

definition sendMessage_try ::
  "string \<Rightarrow> fetch_result \<Rightarrow> detail_page \<Rightarrow> js_error \<times> detail_page + detail_page" where
  "sendMessage_try message reply st =
     (case reply of
        Rejected \<Rightarrow> Inl (NetworkError, st)
      | Resolved ok body \<Rightarrow>
          if \<not> ok then Inl (Error ''Chat request failed'', st)
          else (case body of
              None \<Rightarrow> Inl (SyntaxError, st)
            | Some data \<Rightarrow>
                (let st1 = st\<lparr>chatHistory := chatHistory st @
                              [\<lparr>role = ''user'', content = JStr message\<rparr>]\<rparr>
                 in case get_property data ''response'' of
                      Inl e \<Rightarrow> Inl (e, st1)
                    | Inr answer \<Rightarrow>
                        (let st2 = st1\<lparr>chatHistory := chatHistory st1 @
                                      [\<lparr>role = ''assistant'', content = answer\<rparr>]\<rparr>
                         in case addMessageToChat ''assistant'' answer st2 of
                              Inl e \<Rightarrow> Inl (e, st2)
                            | Inr st3 \<Rightarrow> Inr st3))))"

definition sendMessage_end :: "string \<Rightarrow> fetch_result \<Rightarrow> detail_page \<Rightarrow> detail_page" where
  "sendMessage_end message reply st =
     (let st1 = (case sendMessage_try message reply st of
                   Inr st' \<Rightarrow> st'
                 | Inl (e, st') \<Rightarrow>
                     append_message ''assistant''
                       ''Sorry, I encountered an error. Please try again.''
                       (st'\<lparr>toasts := toasts st' @ [(With_error ''Error: '' e, ''error'')]\<rparr>))
      in st1\<lparr>sendBtn_disabled := False, chatInput_disabled := False,
             sendBtn_text := ''Send'', sendBtn_spinner_hidden := True\<rparr>)"

definition sendMessage :: "fetch_result \<Rightarrow> detail_page \<Rightarrow> detail_page" where
  "sendMessage reply st =
     (case sendMessage_begin st of
        (st', None) \<Rightarrow> st'
      | (st', Some message) \<Rightarrow> sendMessage_end message reply st')"

subsection \<open>Failed and successful turns\<close>

text \<open>
  A turn fails when its \<^verbatim>\<open>try\<close> block throws, so that the \<^verbatim>\<open>catch\<close> branch shows the apology:
  the request fails in the network, the response is not \<^verbatim>\<open>ok\<close>, its body is not JSON, or
  the body has no \<^verbatim>\<open>response\<close> that is a string (reading the property throws on \<^verbatim>\<open>null\<close>,
  and rendering throws on everything but a string). A turn succeeds when the response is
  \<^verbatim>\<open>ok\<close> and its body is an object whose \<^verbatim>\<open>response\<close> is a string. A turn fails before a
  body is there in the first three cases.
\<close>

definition failed_turn :: "fetch_result \<Rightarrow> bool" where
  "failed_turn reply =
     (case reply of
        Rejected \<Rightarrow> True
      | Resolved ok body \<Rightarrow>
          if ok then
            (case body of
               None \<Rightarrow> True
             | Some data \<Rightarrow>
                 (case get_property data ''response'' of
                    Inl e \<Rightarrow> True
                  | Inr (JStr answer) \<Rightarrow> False
                  | Inr _ \<Rightarrow> True))
          else True)"

definition failed_before_body :: "fetch_result \<Rightarrow> bool" where
  "failed_before_body reply =
     (case reply of Rejected \<Rightarrow> True | Resolved ok body \<Rightarrow> if ok then body = None else True)"

definition answer_of :: "fetch_result \<Rightarrow> string option" where
  "answer_of reply =
     (case reply of
        Resolved True (Some (JObj members)) \<Rightarrow>
          (case map_of members ''response'' of Some (JStr answer) \<Rightarrow> Some answer | _ \<Rightarrow> None)
      | _ \<Rightarrow> None)"

definition a_detail_page :: detail_page where
  "a_detail_page =
     \<lparr>documentId = ''doc-1'',
      chatHistory = [\<lparr>role = ''user'', content = JStr ''Hallo''\<rparr>,
                     \<lparr>role = ''assistant'', content = JStr ''Guten Tag''\<rparr>],
      chatMessages = [], chatInput_value = '' Wie? '', chatInput_disabled = False,
      sendBtn_disabled = False, sendBtn_text = ''Send'', sendBtn_spinner_hidden = True,
      toasts = [], sent = []\<rparr>"

lemma answer_of_Some:
  assumes "answer_of reply = Some answer"
  obtains members where "reply = Resolved True (Some (JObj members))"
    and "map_of members ''response'' = Some (JStr answer)"
  using assms
  by (auto simp: answer_of_def split: fetch_result.splits bool.splits option.splits jsval.splits)

text \<open>Every turn either fails or has an answer, and not both.\<close>

lemma failed_turn_iff_no_answer: "failed_turn reply \<longleftrightarrow> answer_of reply = None"
  by (auto simp: failed_turn_def answer_of_def get_property_def
      split: fetch_result.splits bool.splits option.splits jsval.splits sum.splits)

lemma failed_before_body_failed: "failed_before_body reply \<Longrightarrow> failed_turn reply"
  by (auto simp: failed_before_body_def failed_turn_def split: fetch_result.splits)

text \<open>The failed turns are those where the \<^verbatim>\<open>catch\<close> branch runs, in both functions.\<close>

lemma handleChat_try_failed:
  "failed_turn reply \<Longrightarrow> \<exists>e. handleChat_try query reply st = Inl (e, st)"
  by (auto simp: failed_turn_def handleChat_try_def addChatMessage_def
      split: fetch_result.splits option.splits sum.splits jsval.splits if_splits)

lemma handleChat_try_answer:
  assumes "answer_of reply = Some answer"
  shows "handleChat_try query reply st =
    Inr (append_chat_message ''assistant'' answer st
      \<lparr>mainChatHistory := mainChatHistory st @
         [\<lparr>role = ''user'', content = JStr query\<rparr>,
          \<lparr>role = ''assistant'', content = JStr answer\<rparr>]\<rparr>)"
proof -
  from assms obtain members where "reply = Resolved True (Some (JObj members))"
    and "map_of members ''response'' = Some (JStr answer)"
    by (rule answer_of_Some)
  then show ?thesis
    by (simp add: handleChat_try_def get_property_def addChatMessage_def append_chat_message_def)
qed

lemma handleChat_catches_iff:
  "(\<exists>e st'. handleChat_try query reply st = Inl (e, st')) \<longleftrightarrow> failed_turn reply"
proof (cases "answer_of reply")
  case None
  then show ?thesis
    using handleChat_try_failed [of reply query st] by (auto simp: failed_turn_iff_no_answer)
next
  case (Some answer)
  then show ?thesis
    by (simp add: failed_turn_iff_no_answer handleChat_try_answer)
qed

lemma sendMessage_try_failed:
  "failed_turn reply \<Longrightarrow> \<exists>e st'. sendMessage_try message reply st = Inl (e, st')"
  by (auto simp: failed_turn_def sendMessage_try_def addMessageToChat_def Let_def
      split: fetch_result.splits option.splits sum.splits jsval.splits if_splits)

lemma sendMessage_try_failed_before_body:
  "failed_before_body reply \<Longrightarrow> \<exists>e. sendMessage_try message reply st = Inl (e, st)"
  by (auto simp: failed_before_body_def sendMessage_try_def split: fetch_result.splits if_splits)

lemma sendMessage_try_answer:
  assumes "answer_of reply = Some answer"
  shows "sendMessage_try message reply st =
    Inr (append_message ''assistant'' answer
      (st\<lparr>chatHistory := chatHistory st @
         [\<lparr>role = ''user'', content = JStr message\<rparr>,
          \<lparr>role = ''assistant'', content = JStr answer\<rparr>]\<rparr>))"
proof -
  from assms obtain members where "reply = Resolved True (Some (JObj members))"
    and "map_of members ''response'' = Some (JStr answer)"
    by (rule answer_of_Some)
  then show ?thesis
    by (simp add: sendMessage_try_def get_property_def addMessageToChat_def append_message_def
        Let_def)
qed

lemma sendMessage_catches_iff:
  "(\<exists>e st'. sendMessage_try message reply st = Inl (e, st')) \<longleftrightarrow> failed_turn reply"
proof (cases "answer_of reply")
  case None
  then show ?thesis
    using sendMessage_try_failed [of reply message st] by (auto simp: failed_turn_iff_no_answer)
next
  case (Some answer)
  then show ?thesis
    by (simp add: failed_turn_iff_no_answer sendMessage_try_answer)
qed

subsection \<open>The transcript of the upload page\<close>

text \<open>
  \<^verbatim>\<open>handleChat\<close> renders the answer before it extends the transcript: every failed turn
  leaves the transcript as it was, and every other turn appends the user's message and then
  the assistant's answer.
\<close>

lemma handleChat_history:
  assumes "trim (chatInputMain_value st) = query" and "query \<noteq> []"
  shows "failed_turn reply \<Longrightarrow> mainChatHistory (handleChat reply st) = mainChatHistory st"
    and "answer_of reply = Some answer \<Longrightarrow>
      mainChatHistory (handleChat reply st) = mainChatHistory st @
        [\<lparr>role = ''user'', content = JStr query\<rparr>, \<lparr>role = ''assistant'', content = JStr answer\<rparr>]"
proof -
  define st' where "st' = fst (handleChat_begin st)"
  have start: "handleChat_begin st = (st', Some query)"
    using assms by (simp add: st'_def handleChat_begin_def Let_def)
  have hist: "mainChatHistory st' = mainChatHistory st"
    using assms by (simp add: st'_def handleChat_begin_def Let_def append_chat_message_def)
  {
    assume "failed_turn reply"
    then obtain e where "handleChat_try query reply st' = Inl (e, st')"
      using handleChat_try_failed by blast
    then show "mainChatHistory (handleChat reply st) = mainChatHistory st"
      by (simp add: handleChat_def start handleChat_end_def Let_def hist showToast_def
          append_chat_message_def)
  }
  {
    assume "answer_of reply = Some answer"
    then show "mainChatHistory (handleChat reply st) = mainChatHistory st @
        [\<lparr>role = ''user'', content = JStr query\<rparr>, \<lparr>role = ''assistant'', content = JStr answer\<rparr>]"
      by (simp add: handleChat_def start handleChat_end_def Let_def hist handleChat_try_answer
          append_chat_message_def)
  }
qed

subsection \<open>The transcript of the document page\<close>

text \<open>
  \<^verbatim>\<open>sendMessage\<close> extends the transcript before it renders the answer. A turn that fails
  before a body is there leaves the transcript as it was, and a turn with an answer appends
  the two messages. A failed turn with a body has extended the transcript when the
  \<^verbatim>\<open>catch\<close> branch runs: by the user's message when reading \<^verbatim>\<open>data.response\<close> throws, and by
  the user's message and \<^verbatim>\<open>data.response\<close>, which is not a string, otherwise.
\<close>

lemma sendMessage_history:
  assumes "trim (chatInput_value st) = message" and "message \<noteq> []"
  shows "failed_before_body reply \<Longrightarrow> chatHistory (sendMessage reply st) = chatHistory st"
    and "answer_of reply = Some answer \<Longrightarrow>
      chatHistory (sendMessage reply st) = chatHistory st @
        [\<lparr>role = ''user'', content = JStr message\<rparr>,
         \<lparr>role = ''assistant'', content = JStr answer\<rparr>]"
proof -
  define st' where "st' = fst (sendMessage_begin st)"
  have start: "sendMessage_begin st = (st', Some message)"
    using assms by (simp add: st'_def sendMessage_begin_def Let_def)
  have hist: "chatHistory st' = chatHistory st"
    using assms by (simp add: st'_def sendMessage_begin_def Let_def append_message_def)
  {
    assume "failed_before_body reply"
    then obtain e where "sendMessage_try message reply st' = Inl (e, st')"
      using sendMessage_try_failed_before_body by blast
    then show "chatHistory (sendMessage reply st) = chatHistory st"
      by (simp add: sendMessage_def start sendMessage_end_def Let_def hist append_message_def)
  }
  {
    assume "answer_of reply = Some answer"
    then show "chatHistory (sendMessage reply st) = chatHistory st @
        [\<lparr>role = ''user'', content = JStr message\<rparr>,
         \<lparr>role = ''assistant'', content = JStr answer\<rparr>]"
      by (simp add: sendMessage_def start sendMessage_end_def Let_def hist sendMessage_try_answer
          append_message_def)
  }
qed

lemma sendMessage_history_failed_with_body:
  assumes "trim (chatInput_value st) = message" and "message \<noteq> []"
    and "failed_turn (Resolved True (Some data))"
  shows "chatHistory (sendMessage (Resolved True (Some data)) st) =
    chatHistory st @ \<lparr>role = ''user'', content = JStr message\<rparr> #
      (case get_property data ''response'' of
         Inl e \<Rightarrow> []
       | Inr answer \<Rightarrow> [\<lparr>role = ''assistant'', content = answer\<rparr>])"
proof -
  define st' where "st' = fst (sendMessage_begin st)"
  have start: "sendMessage_begin st = (st', Some message)"
    using assms(1,2) by (simp add: st'_def sendMessage_begin_def Let_def)
  have hist: "chatHistory st' = chatHistory st"
    using assms(1,2) by (simp add: st'_def sendMessage_begin_def Let_def append_message_def)
  show ?thesis
    using assms(3)
    by (auto simp: sendMessage_def start sendMessage_end_def sendMessage_try_def Let_def hist
        failed_turn_def addMessageToChat_def append_message_def
        split: sum.splits jsval.splits)
qed

lemma handleChat_reply_without_text:
  assumes "trim (chatInputMain_value st) \<noteq> []"
  shows "mainChatHistory (handleChat (Resolved True (Some (JObj []))) st) = mainChatHistory st"
  using assms
  by (simp add: handleChat_def handleChat_begin_def handleChat_end_def handleChat_try_def Let_def
      get_property_def addChatMessage_def append_chat_message_def showToast_def)

lemma sendMessage_reply_without_text:
  assumes "trim (chatInput_value st) = message" and "message \<noteq> []"
  shows "chatHistory (sendMessage (Resolved True (Some (JObj []))) st) = chatHistory st @
    [\<lparr>role = ''user'', content = JStr message\<rparr>, \<lparr>role = ''assistant'', content = JUndefined\<rparr>]"
  using assms
  by (simp add: sendMessage_def sendMessage_begin_def sendMessage_end_def sendMessage_try_def
      Let_def get_property_def addMessageToChat_def append_message_def)

lemma trim_examples:
  "trim '' Wie? '' = ''Wie?''"
  by (simp add: trim_def is_white_space_def)

lemma reply_examples:
  "failed_turn Rejected" "failed_turn (Resolved False None)"
  "failed_turn (Resolved True (Some (JObj [])))" "failed_turn (Resolved True (Some JNull))"
  "\<not> failed_turn (Resolved True (Some (JObj [(''response'', JStr ''So.'')])))"
  "answer_of (Resolved True (Some (JObj [(''response'', JStr ''So.'')]))) = Some ''So.''"
  by (simp_all add: failed_turn_def answer_of_def get_property_def)

lemma formatMessageContent_plain:
  assumes "CHR ''*'' \<notin> set s" and "CHR 0x0A \<notin> set s"
  shows "formatMessageContent s = s"
proof -
  have "formatMessageContent s = line_breaks (emphasise s)"
    by (simp add: formatMessageContent_def replace_all_re_bold replace_all_Chr_plain
        line_breaks_def)
  then show ?thesis
    using assms by (simp add: emphasise_no_asterisk line_breaks_no_newline)
qed

text \<open>
  Claim C3 fails on the document page. The response is \<^verbatim>\<open>ok\<close> and its body is the object
  \<^verbatim>\<open>{}\<close>, or \<^verbatim>\<open>null\<close>: the turn fails, \<^verbatim>\<open>sendMessage\<close> shows the error and the apology, and the
  transcript that the next request carries has grown, by the user's message and an
  assistant's message without content in the first case and by the user's message in the
  second. On the upload page \<^verbatim>\<open>handleChat\<close> leaves the transcript of the same turn as it was.
\<close>

theorem sendMessage_failed_turn_extends_transcript:
  "failed_turn (Resolved True (Some (JObj []))) \<and>
   failed_turn (Resolved True (Some JNull)) \<and>
   chatMessages (sendMessage (Resolved True (Some (JObj []))) a_detail_page) =
     [(''message user'', ''Wie?''),
      (''message assistant'', ''Sorry, I encountered an error. Please try again.'')] \<and>
   toasts (sendMessage (Resolved True (Some (JObj []))) a_detail_page) =
     [(With_error ''Error: '' TypeError, ''error'')] \<and>
   chatHistory (sendMessage (Resolved True (Some (JObj []))) a_detail_page) =
     [\<lparr>role = ''user'', content = JStr ''Hallo''\<rparr>,
      \<lparr>role = ''assistant'', content = JStr ''Guten Tag''\<rparr>,
      \<lparr>role = ''user'', content = JStr ''Wie?''\<rparr>,
      \<lparr>role = ''assistant'', content = JUndefined\<rparr>] \<and>
   chatHistory (sendMessage (Resolved True (Some JNull)) a_detail_page) =
     [\<lparr>role = ''user'', content = JStr ''Hallo''\<rparr>,
      \<lparr>role = ''assistant'', content = JStr ''Guten Tag''\<rparr>,
      \<lparr>role = ''user'', content = JStr ''Wie?''\<rparr>] \<and>
   chatHistory a_detail_page =
     [\<lparr>role = ''user'', content = JStr ''Hallo''\<rparr>,
      \<lparr>role = ''assistant'', content = JStr ''Guten Tag''\<rparr>] \<and>
   mainChatHistory (handleChat (Resolved True (Some (JObj [])))
     (a_page\<lparr>chatInputMain_value := '' Wie? '', mainChatHistory :=
        [\<lparr>role = ''user'', content = JStr ''Hallo''\<rparr>,
         \<lparr>role = ''assistant'', content = JStr ''Guten Tag''\<rparr>]\<rparr>)) =
     [\<lparr>role = ''user'', content = JStr ''Hallo''\<rparr>,
      \<lparr>role = ''assistant'', content = JStr ''Guten Tag''\<rparr>]"
proof -
  have markup: "formatMessageContent ''Wie?'' = ''Wie?''"
    "formatMessageContent ''Sorry, I encountered an error. Please try again.'' =
      ''Sorry, I encountered an error. Please try again.''"
    by (simp_all add: formatMessageContent_plain)
  show ?thesis
    by (simp add: reply_examples trim_examples markup sendMessage_def sendMessage_begin_def
        sendMessage_end_def sendMessage_try_def Let_def get_property_def addMessageToChat_def
        append_message_def a_detail_page_def handleChat_def handleChat_begin_def
        handleChat_end_def handleChat_try_def addChatMessage_def append_chat_message_def
        showToast_def a_page_def)
qed

section \<open>JSON\<close>

text \<open>
  \<^verbatim>\<open>JSON.stringify\<close> and \<^verbatim>\<open>JSON.parse\<close>, as the language defines them, on the values
  above. A string is quoted with the escapes of the standard: the quotation mark, the
  backslash and the control characters. \<^verbatim>\<open>undefined\<close> has no text: a property with this
  value is left out of an object, an array shows it as \<^verbatim>\<open>null\<close>, and on its own
  \<^verbatim>\<open>JSON.stringify\<close> returns \<^verbatim>\<open>undefined\<close>.
\<close>

definition hex_digit :: "nat \<Rightarrow> char" where
  "hex_digit n = ''0123456789abcdef'' ! n"

definition is_control :: "char \<Rightarrow> bool" where
  "is_control c = ((of_char c :: nat) < 32)"

definition escape_char :: "char \<Rightarrow> string" where
  "escape_char c =
     (if c = CHR 0x22 then [CHR 0x5C, CHR 0x22]
      else if c = CHR 0x5C then [CHR 0x5C, CHR 0x5C]
      else if c = CHR 0x08 then [CHR 0x5C, CHR ''b'']
      else if c = CHR 0x0C then [CHR 0x5C, CHR ''f'']
      else if c = CHR 0x0A then [CHR 0x5C, CHR ''n'']
      else if c = CHR 0x0D then [CHR 0x5C, CHR ''r'']
      else if c = CHR 0x09 then [CHR 0x5C, CHR ''t'']
      else if is_control c
        then [CHR 0x5C, CHR ''u'', CHR ''0'', CHR ''0'',
              hex_digit (of_char c div 16), hex_digit (of_char c mod 16)]
      else [c])"

definition quote :: "string \<Rightarrow> string" where
  "quote s = CHR 0x22 # concat (map escape_char s) @ [CHR 0x22]"

fun JSON_stringify :: "jsval \<Rightarrow> string option" where
  "JSON_stringify JUndefined = None"
| "JSON_stringify JNull = Some ''null''"
| "JSON_stringify (JBool b) = Some (if b then ''true'' else ''false'')"
| "JSON_stringify (JNum literal) = Some literal"
| "JSON_stringify (JStr s) = Some (quote s)"
| "JSON_stringify (JArr xs) =
     Some (''['' @ join (map (\<lambda>x. case JSON_stringify x of None \<Rightarrow> ''null'' | Some t \<Rightarrow> t) xs) '',''
           @ '']'')"
| "JSON_stringify (JObj members) =
     Some (''{'' @ join (concat (map (\<lambda>(key, v).
               case JSON_stringify v of None \<Rightarrow> [] | Some t \<Rightarrow> [quote key @ '':'' @ t]) members))
             '','' @ ''}'')"

text \<open>
  The parser reads one value and what follows it. Its recursion is counted down by a
  number of steps; \<open>JSON_parse\<close> starts it with more steps than any text can use
  (\<open>parse_value_enough\<close> below), so that running out of steps never happens. A text that is
  not JSON makes \<^verbatim>\<open>JSON.parse\<close> throw a \<^verbatim>\<open>SyntaxError\<close>. An escape \<^verbatim>\<open>\uXXXX\<close> stands for the
  code unit \<open>XXXX\<close>, of which the model keeps the low byte. Of two properties with the same
  name the later value wins, in the place of the earlier.
\<close>

datatype 'a presult = Parsed 'a string | Failed | Exhausted

definition pcons :: "'a \<Rightarrow> 'a list presult \<Rightarrow> 'a list presult" where
  "pcons x r = map_presult (\<lambda>xs. x # xs) r"

definition is_json_space :: "char \<Rightarrow> bool" where
  "is_json_space c \<longleftrightarrow> c \<in> set [CHR 0x20, CHR 0x09, CHR 0x0A, CHR 0x0D]"

definition skip_ws :: "string \<Rightarrow> string" where
  "skip_ws s = dropWhile is_json_space s"

definition hex_value :: "char \<Rightarrow> nat option" where
  "hex_value c =
     map_of (zip ''0123456789abcdefABCDEF''
       [0, 1, 2, 3, 4, 5, 6, 7, 8, 9, 10, 11, 12, 13, 14, 15, 10, 11, 12, 13, 14, 15]) c"

definition parse_hex4 :: "string \<Rightarrow> nat option" where
  "parse_hex4 s =
     (case map hex_value (take 4 s) of
        [Some a, Some b, Some c, Some d] \<Rightarrow> Some (((a * 16 + b) * 16 + c) * 16 + d)
      | _ \<Rightarrow> None)"

definition unescape :: "char \<Rightarrow> char option" where
  "unescape e =
     map_of [(CHR 0x22, CHR 0x22), (CHR 0x5C, CHR 0x5C), (CHR ''/'', CHR ''/''),
             (CHR ''b'', CHR 0x08), (CHR ''f'', CHR 0x0C), (CHR ''n'', CHR 0x0A),
             (CHR ''r'', CHR 0x0D), (CHR ''t'', CHR 0x09)] e"

fun parse_chars :: "string \<Rightarrow> string presult" where
  "parse_chars [] = Failed"
| "parse_chars [c] = (if c = CHR 0x22 then Parsed [] [] else Failed)"
| "parse_chars (c # e # es) =
     (if c = CHR 0x22 then Parsed [] (e # es)
      else if c = CHR 0x5C then
        (if e = CHR ''u'' then
           (case parse_hex4 es of
              None \<Rightarrow> Failed
            | Some n \<Rightarrow> pcons (char_of n) (parse_chars (drop 4 es)))
         else (case unescape e of
                 None \<Rightarrow> Failed
               | Some x \<Rightarrow> pcons x (parse_chars es)))
      else if is_control c then Failed
      else pcons c (parse_chars (e # es)))"

definition is_digit :: "char \<Rightarrow> bool" where
  "is_digit c \<longleftrightarrow> c \<in> set ''0123456789''"

definition scan_int :: "string \<Rightarrow> (string \<times> string) option" where
  "scan_int s =
     (case s of
        [] \<Rightarrow> None
      | c # cs \<Rightarrow>
          if c = CHR ''0'' then Some ([c], cs)
          else if is_digit c then Some (c # takeWhile is_digit cs, dropWhile is_digit cs)
          else None)"

definition scan_frac :: "string \<Rightarrow> (string \<times> string) option" where
  "scan_frac s =
     (case s of
        [] \<Rightarrow> Some ([], s)
      | c # cs \<Rightarrow>
          if c = CHR ''.'' then
            (if takeWhile is_digit cs = [] then None
             else Some (c # takeWhile is_digit cs, dropWhile is_digit cs))
          else Some ([], s))"

definition scan_sign :: "string \<Rightarrow> string \<times> string" where
  "scan_sign s =
     (case s of
        [] \<Rightarrow> ([], s)
      | c # cs \<Rightarrow> if c = CHR ''+'' \<or> c = CHR ''-'' then ([c], cs) else ([], s))"

definition scan_exp :: "string \<Rightarrow> (string \<times> string) option" where
  "scan_exp s =
     (case s of
        [] \<Rightarrow> Some ([], s)
      | c # cs \<Rightarrow>
          if c = CHR ''e'' \<or> c = CHR ''E'' then
            (case scan_sign cs of (sign, r) \<Rightarrow>
               if takeWhile is_digit r = [] then None
               else Some (c # sign @ takeWhile is_digit r, dropWhile is_digit r))
          else Some ([], s))"

definition scan_number :: "string \<Rightarrow> (string \<times> string) option" where
  "scan_number s =
     (case (case s of [] \<Rightarrow> ([], s) | c # cs \<Rightarrow> if c = CHR ''-'' then ([c], cs) else ([], s)) of
        (neg, s1) \<Rightarrow>
          (case scan_int s1 of
             None \<Rightarrow> None
           | Some (i, s2) \<Rightarrow>
               (case scan_frac s2 of
                  None \<Rightarrow> None
                | Some (f, s3) \<Rightarrow>
                    (case scan_exp s3 of
                       None \<Rightarrow> None
                     | Some (e, s4) \<Rightarrow> Some (neg @ i @ f @ e, s4)))))"

fun put_property :: "string \<Rightarrow> jsval \<Rightarrow> (string \<times> jsval) list \<Rightarrow> (string \<times> jsval) list" where
  "put_property key v [] = [(key, v)]"
| "put_property key v (p # ps) =
     (if fst p = key then (key, v) # ps else p # put_property key v ps)"

definition make_object :: "(string \<times> jsval) list \<Rightarrow> jsval" where
  "make_object members = JObj (foldl (\<lambda>acc (key, v). put_property key v acc) [] members)"

fun parse_value :: "nat \<Rightarrow> string \<Rightarrow> jsval presult"
  and parse_elements :: "nat \<Rightarrow> string \<Rightarrow> jsval list presult"
  and parse_members :: "nat \<Rightarrow> string \<Rightarrow> (string \<times> jsval) list presult"
where
  "parse_value 0 s = Exhausted"
| "parse_value (Suc n) s =
     (case skip_ws s of
        [] \<Rightarrow> Failed
      | c # cs \<Rightarrow>
          if c = CHR 0x22 then map_presult JStr (parse_chars cs)
          else if c = CHR ''['' then
            (case skip_ws cs of
               [] \<Rightarrow> Failed
             | d # ds \<Rightarrow>
                 if d = CHR '']'' then Parsed (JArr []) ds
                 else map_presult JArr (parse_elements n cs))
          else if c = CHR ''{'' then
            (case skip_ws cs of
               [] \<Rightarrow> Failed
             | d # ds \<Rightarrow>
                 if d = CHR ''}'' then Parsed (JObj []) ds
                 else map_presult make_object (parse_members n cs))
          else if prefix ''null'' (c # cs) then Parsed JNull (drop 4 (c # cs))
          else if prefix ''true'' (c # cs) then Parsed (JBool True) (drop 4 (c # cs))
          else if prefix ''false'' (c # cs) then Parsed (JBool False) (drop 5 (c # cs))
          else (case scan_number (c # cs) of
                  None \<Rightarrow> Failed
                | Some (literal, rest) \<Rightarrow> Parsed (JNum literal) rest))"
| "parse_elements 0 s = Exhausted"
| "parse_elements (Suc n) s =
     (case parse_value n s of
        Parsed v rest \<Rightarrow>
          (case skip_ws rest of
             [] \<Rightarrow> Failed
           | c # cs \<Rightarrow>
               if c = CHR '','' then pcons v (parse_elements n cs)
               else if c = CHR '']'' then Parsed [v] cs
               else Failed)
      | Failed \<Rightarrow> Failed
      | Exhausted \<Rightarrow> Exhausted)"
| "parse_members 0 s = Exhausted"
| "parse_members (Suc n) s =
     (case skip_ws s of
        [] \<Rightarrow> Failed
      | q # qs \<Rightarrow>
          if q \<noteq> CHR 0x22 then Failed
          else
            (case parse_chars qs of
               Parsed key rest \<Rightarrow>
                 (case skip_ws rest of
                    [] \<Rightarrow> Failed
                  | c # cs \<Rightarrow>
                      if c \<noteq> CHR '':'' then Failed
                      else
                        (case parse_value n cs of
                           Parsed v rest' \<Rightarrow>
                             (case skip_ws rest' of
                                [] \<Rightarrow> Failed
                              | d # ds \<Rightarrow>
                                  if d = CHR '','' then pcons (key, v) (parse_members n ds)
                                  else if d = CHR ''}'' then Parsed [(key, v)] ds
                                  else Failed)
                         | Failed \<Rightarrow> Failed
                         | Exhausted \<Rightarrow> Exhausted))
             | Failed \<Rightarrow> Failed
             | Exhausted \<Rightarrow> Exhausted))"

definition JSON_parse :: "string \<Rightarrow> js_error + jsval" where
  "JSON_parse s =
     (case parse_value (2 * length s + 2) s of
        Parsed v rest \<Rightarrow> if skip_ws rest = [] then Inr v else Inl SyntaxError
      | Failed \<Rightarrow> Inl SyntaxError
      | Exhausted \<Rightarrow> Inl SyntaxError)"

subsection \<open>The parser never runs out of steps\<close>

lemma map_presult_Parsed:
  "map_presult f p = Parsed v r \<longleftrightarrow> (\<exists>x. p = Parsed x r \<and> v = f x)"
  by (cases p) auto

lemma map_presult_Exhausted: "map_presult f p = Exhausted \<longleftrightarrow> p = Exhausted"
  by (cases p) auto

lemma pcons_Parsed: "pcons x p = Parsed v r \<longleftrightarrow> (\<exists>xs. p = Parsed xs r \<and> v = x # xs)"
  by (auto simp: pcons_def map_presult_Parsed)

lemma pcons_Exhausted: "pcons x p = Exhausted \<longleftrightarrow> p = Exhausted"
  by (simp add: pcons_def map_presult_Exhausted)

lemma skip_ws_length: "length (skip_ws s) \<le> length s"
  by (simp add: skip_ws_def length_dropWhile_le)

lemma skip_ws_Cons_length: "skip_ws s = c # cs \<Longrightarrow> length cs < length s"
  using skip_ws_length [of s] by simp

lemma parse_chars_shorter: "parse_chars s = Parsed x r \<Longrightarrow> length r < length s"
proof (induction s arbitrary: x rule: parse_chars.induct)
  case 1
  then show ?case by simp
next
  case (2 c)
  then show ?case by (simp split: if_splits)
next
  case (3 c e es)
  show ?case
  proof (cases "c = CHR 0x22")
    case True
    with 3 show ?thesis by simp
  next
    case quote: False
    show ?thesis
    proof (cases "c = CHR 0x5C")
      case True
      show ?thesis
      proof (cases "e = CHR ''u''")
        case u: True
        with True quote "3.prems" obtain n x' where "parse_hex4 es = Some n"
          and "parse_chars (drop 4 es) = Parsed x' r"
          by (auto simp: pcons_Parsed split: option.splits)
        with "3.IH"(1) [of n x'] quote True u have "length r < length (drop 4 es)"
          by simp
        then show ?thesis by simp
      next
        case False
        with True quote "3.prems" obtain y x' where "unescape e = Some y"
          and "parse_chars es = Parsed x' r"
          by (auto simp: pcons_Parsed split: option.splits)
        with "3.IH"(2) [of y x'] quote True False have "length r < length es"
          by simp
        then show ?thesis by simp
      qed
    next
      case False
      with quote "3.prems" obtain x' where "\<not> is_control c" and "parse_chars (e # es) = Parsed x' r"
        by (auto simp: pcons_Parsed split: if_splits)
      with "3.IH"(3) [of x'] quote False have "length r < length (e # es)"
        by simp
      then show ?thesis by simp
    qed
  qed
qed

lemma parse_chars_not_Exhausted: "parse_chars s \<noteq> Exhausted"
  by (induction s rule: parse_chars.induct) (auto simp: pcons_Exhausted split: option.splits)

lemma scan_int_shorter: "scan_int s = Some (i, r) \<Longrightarrow> length r < length s"
  by (auto simp: scan_int_def split: list.splits if_splits
      intro: le_imp_less_Suc length_dropWhile_le)

lemma scan_frac_shorter: "scan_frac s = Some (f, r) \<Longrightarrow> length r \<le> length s"
  by (auto simp: scan_frac_def split: list.splits if_splits
      intro: le_SucI length_dropWhile_le)

lemma scan_sign_shorter: "scan_sign s = (sign, r) \<Longrightarrow> length r \<le> length s"
  by (auto simp: scan_sign_def split: list.splits if_splits)

lemma scan_exp_shorter: "scan_exp s = Some (e, r) \<Longrightarrow> length r \<le> length s"
proof (cases s)
  case Nil
  assume "scan_exp s = Some (e, r)"
  with Nil show ?thesis by (simp add: scan_exp_def)
next
  case (Cons c cs)
  assume a: "scan_exp s = Some (e, r)"
  obtain sign u where su: "scan_sign cs = (sign, u)"
    by (cases "scan_sign cs")
  then have "length u \<le> length cs"
    by (rule scan_sign_shorter)
  moreover have "length (dropWhile is_digit u) \<le> length u"
    by (rule length_dropWhile_le)
  ultimately show ?thesis
    using a Cons su by (auto simp: scan_exp_def split: if_splits)
qed

lemma scan_number_shorter:
  assumes "scan_number s = Some (literal, r)"
  shows "length r < length s"
proof -
  define s1 where "s1 = snd (case s of [] \<Rightarrow> ([], s) | c # cs \<Rightarrow> if c = CHR ''-'' then ([c], cs) else ([], s))"
  have s1: "length s1 \<le> length s"
    by (auto simp: s1_def split: list.splits)
  from assms obtain i s2 f s3 e where "scan_int s1 = Some (i, s2)" "scan_frac s2 = Some (f, s3)"
    "scan_exp s3 = Some (e, r)"
    by (auto simp: scan_number_def s1_def split: list.splits if_splits option.splits prod.splits)
  then have "length s2 < length s1" "length s3 \<le> length s2" "length r \<le> length s3"
    by (auto dest: scan_int_shorter scan_frac_shorter scan_exp_shorter)
  with s1 show ?thesis by simp
qed

lemma literal_or_number:
  assumes "(if A then Parsed a ra else if B then Parsed b ra else if C then Parsed c' rb
            else (case N of None \<Rightarrow> Failed | Some (literal, rest) \<Rightarrow> Parsed (f literal) rest))
           = Parsed v r"
  shows "r = ra \<or> r = rb \<or> (\<exists>literal. N = Some (literal, r))"
  using assms by (auto split: if_splits option.splits)

lemma parse_value_shorter_step:
  assumes E: "\<And>s vs r. parse_elements n s = Parsed vs r \<Longrightarrow> length r < length s"
    and M: "\<And>s ms r. parse_members n s = Parsed ms r \<Longrightarrow> length r < length s"
    and p: "parse_value (Suc n) s = Parsed v r"
  shows "length r < length s"
proof (cases "skip_ws s")
  case Nil
  with p show ?thesis by simp
next
  case (Cons c cs)
  then have cs: "length cs < length s"
    by (rule skip_ws_Cons_length)
  consider (str) "c = CHR 0x22" | (arr) "c = CHR ''[''" | (obj) "c = CHR ''{''"
    | (other) "c \<noteq> CHR 0x22" "c \<noteq> CHR ''[''" "c \<noteq> CHR ''{''"
    by blast
  then show ?thesis
  proof cases
    case str
    with p Cons obtain x where "parse_chars cs = Parsed x r"
      by (auto simp: map_presult_Parsed)
    then have "length r < length cs"
      by (rule parse_chars_shorter)
    with cs show ?thesis by simp
  next
    case arr
    show ?thesis
    proof (cases "skip_ws cs")
      case Nil
      with p Cons arr show ?thesis by simp
    next
      case inner: (Cons d ds)
      then have ds: "length ds < length cs"
        by (rule skip_ws_Cons_length)
      show ?thesis
      proof (cases "d = CHR '']''")
        case True
        with p Cons arr inner have "r = ds" by simp
        with ds cs show ?thesis by simp
      next
        case False
        with p Cons arr inner obtain xs where "parse_elements n cs = Parsed xs r"
          by (auto simp: map_presult_Parsed)
        then have "length r < length cs" by (rule E)
        with cs show ?thesis by simp
      qed
    qed
  next
    case obj
    show ?thesis
    proof (cases "skip_ws cs")
      case Nil
      with p Cons obj show ?thesis by simp
    next
      case inner: (Cons d ds)
      then have ds: "length ds < length cs"
        by (rule skip_ws_Cons_length)
      show ?thesis
      proof (cases "d = CHR ''}''")
        case True
        with p Cons obj inner have "r = ds" by simp
        with ds cs show ?thesis by simp
      next
        case False
        with p Cons obj inner obtain xs where "parse_members n cs = Parsed xs r"
          by (auto simp: map_presult_Parsed)
        then have "length r < length cs" by (rule M)
        with cs show ?thesis by simp
      qed
    qed
  next
    case other
    from p have "(if prefix ''null'' (c # cs) then Parsed JNull (drop 4 (c # cs))
          else if prefix ''true'' (c # cs) then Parsed (JBool True) (drop 4 (c # cs))
          else if prefix ''false'' (c # cs) then Parsed (JBool False) (drop 5 (c # cs))
          else (case scan_number (c # cs) of
                  None \<Rightarrow> Failed
                | Some (literal, rest) \<Rightarrow> Parsed (JNum literal) rest)) = Parsed v r"
      unfolding parse_value.simps Cons list.case by (simp only: other if_False)
    then have "r = drop 4 (c # cs) \<or> r = drop 5 (c # cs) \<or>
        (\<exists>literal. scan_number (c # cs) = Some (literal, r))"
      by (rule literal_or_number)
    then have "length r \<le> length cs"
      by (auto dest: scan_number_shorter)
    with cs show ?thesis by simp
  qed
qed

lemma parse_elements_shorter_step:
  assumes V: "\<And>s v r. parse_value n s = Parsed v r \<Longrightarrow> length r < length s"
    and E: "\<And>s vs r. parse_elements n s = Parsed vs r \<Longrightarrow> length r < length s"
    and p: "parse_elements (Suc n) s = Parsed vs r"
  shows "length r + 1 < length s"
proof -
  from p obtain v rest where v: "parse_value n s = Parsed v rest"
    by (auto split: presult.splits)
  then have rest: "length rest < length s" by (rule V)
  from p v obtain c cs where c: "skip_ws rest = c # cs"
    by (auto split: list.splits)
  then have cs: "length cs < length rest"
    by (rule skip_ws_Cons_length)
  show ?thesis
  proof (cases "c = CHR '',''")
    case True
    with p v c obtain xs where "parse_elements n cs = Parsed xs r"
      by (auto simp: pcons_Parsed)
    then have "length r < length cs" by (rule E)
    with cs rest show ?thesis by simp
  next
    case False
    with p v c have "r = cs"
      by (auto split: if_splits)
    with cs rest show ?thesis by simp
  qed
qed

lemma parse_members_shorter_step:
  assumes V: "\<And>s v r. parse_value n s = Parsed v r \<Longrightarrow> length r < length s"
    and M: "\<And>s ms r. parse_members n s = Parsed ms r \<Longrightarrow> length r < length s"
    and p: "parse_members (Suc n) s = Parsed ms r"
  shows "length r < length s"
proof -
  from p obtain q qs where q: "skip_ws s = q # qs"
    by (auto split: list.splits)
  then have qs: "length qs < length s"
    by (rule skip_ws_Cons_length)
  from p q have q22: "q = CHR 0x22"
    by (auto split: if_splits)
  from p q q22 obtain key rest where key: "parse_chars qs = Parsed key rest"
    by (auto split: presult.splits)
  then have rest: "length rest < length qs"
    by (rule parse_chars_shorter)
  from p q q22 key obtain c cs where c: "skip_ws rest = c # cs"
    by (auto split: list.splits)
  then have cs: "length cs < length rest"
    by (rule skip_ws_Cons_length)
  from p q q22 key c have colon: "c = CHR '':''"
    by (auto split: if_splits)
  from p q q22 key c colon obtain v rest' where v: "parse_value n cs = Parsed v rest'"
    by (auto split: presult.splits)
  then have rest': "length rest' < length cs" by (rule V)
  from p q q22 key c colon v obtain d ds where d: "skip_ws rest' = d # ds"
    by (auto split: list.splits)
  then have ds: "length ds < length rest'"
    by (rule skip_ws_Cons_length)
  show ?thesis
  proof (cases "d = CHR '',''")
    case True
    with p q q22 key c colon v d obtain xs where "parse_members n ds = Parsed xs r"
      by (auto simp: pcons_Parsed)
    then have "length r < length ds" by (rule M)
    with ds rest' cs rest qs show ?thesis by simp
  next
    case False
    with p q q22 key c colon v d have "r = ds"
      by (auto split: if_splits)
    with ds rest' cs rest qs show ?thesis by simp
  qed
qed

lemma parse_shorter:
  "(\<forall>s v r. parse_value n s = Parsed v r \<longrightarrow> length r < length s) \<and>
   (\<forall>s vs r. parse_elements n s = Parsed vs r \<longrightarrow> length r < length s) \<and>
   (\<forall>s ms r. parse_members n s = Parsed ms r \<longrightarrow> length r < length s)"
proof (induction n)
  case 0
  show ?case by simp
next
  case (Suc n)
  then have V: "\<And>s v r. parse_value n s = Parsed v r \<Longrightarrow> length r < length s"
    and E: "\<And>s vs r. parse_elements n s = Parsed vs r \<Longrightarrow> length r < length s"
    and M: "\<And>s ms r. parse_members n s = Parsed ms r \<Longrightarrow> length r < length s"
    by blast+
  show ?case
  proof (intro conjI allI impI)
    fix s v r assume "parse_value (Suc n) s = Parsed v r"
    then show "length r < length s"
      using E M by (rule parse_value_shorter_step [rotated 2])
  next
    fix s vs r assume "parse_elements (Suc n) s = Parsed vs r"
    then have "length r + 1 < length s"
      using V E by (rule parse_elements_shorter_step [rotated 2])
    then show "length r < length s" by simp
  next
    fix s ms r assume "parse_members (Suc n) s = Parsed ms r"
    then show "length r < length s"
      using V M by (rule parse_members_shorter_step [rotated 2])
  qed
qed

lemma parse_value_shorter: "parse_value n s = Parsed v r \<Longrightarrow> length r < length s"
  using parse_shorter by blast

lemma parse_enough:
  "(\<forall>s. 2 * length s < n \<longrightarrow> parse_value n s \<noteq> Exhausted) \<and>
   (\<forall>s. 2 * length s + 1 < n \<longrightarrow> parse_elements n s \<noteq> Exhausted) \<and>
   (\<forall>s. 2 * length s + 1 < n \<longrightarrow> parse_members n s \<noteq> Exhausted)"
proof (induction n)
  case 0
  show ?case by simp
next
  case (Suc n)
  then have V: "\<And>s. 2 * length s < n \<Longrightarrow> parse_value n s \<noteq> Exhausted"
    and E: "\<And>s. 2 * length s + 1 < n \<Longrightarrow> parse_elements n s \<noteq> Exhausted"
    and M: "\<And>s. 2 * length s + 1 < n \<Longrightarrow> parse_members n s \<noteq> Exhausted"
    by blast+
  show ?case
  proof (intro conjI allI impI)
    fix s :: string
    assume fuel: "2 * length s < Suc n"
    show "parse_value (Suc n) s \<noteq> Exhausted"
    proof (cases "skip_ws s")
      case Nil
      then show ?thesis by simp
    next
      case (Cons c cs)
      then have "length cs < length s"
        by (rule skip_ws_Cons_length)
      with fuel have "2 * length cs + 1 < n"
        by simp
      then have "parse_elements n cs \<noteq> Exhausted" "parse_members n cs \<noteq> Exhausted"
        by (simp_all add: E M)
      with Cons show ?thesis
        by (auto simp: map_presult_Exhausted parse_chars_not_Exhausted
            split: list.splits option.splits)
    qed
  next
    fix s :: string
    assume fuel: "2 * length s + 1 < Suc n"
    show "parse_elements (Suc n) s \<noteq> Exhausted"
    proof (cases "parse_value n s")
      case (Parsed v rest)
      then have rest: "length rest < length s"
        by (rule parse_value_shorter)
      show ?thesis
      proof (cases "skip_ws rest")
        case Nil
        with Parsed show ?thesis by simp
      next
        case (Cons c cs)
        then have "length cs < length rest"
          by (rule skip_ws_Cons_length)
        with rest fuel have "2 * length cs + 1 < n"
          by simp
        then have "parse_elements n cs \<noteq> Exhausted"
          by (rule E)
        with Parsed Cons show ?thesis
          by (simp add: pcons_Exhausted)
      qed
    next
      case Failed
      then show ?thesis by simp
    next
      case Exhausted
      moreover have "parse_value n s \<noteq> Exhausted"
        using fuel by (intro V) simp
      ultimately show ?thesis by simp
    qed
  next
    fix s :: string
    assume fuel: "2 * length s + 1 < Suc n"
    show "parse_members (Suc n) s \<noteq> Exhausted"
    proof (cases "skip_ws s")
      case Nil
      then show ?thesis by simp
    next
      case (Cons q qs)
      then have qs: "length qs < length s"
        by (rule skip_ws_Cons_length)
      show ?thesis
      proof (cases "parse_chars qs")
        case (Parsed key rest)
        then have rest: "length rest < length qs"
          by (rule parse_chars_shorter)
        show ?thesis
        proof (cases "skip_ws rest")
          case Nil
          with Cons Parsed show ?thesis by simp
        next
          case inner: (Cons c cs)
          then have cs: "length cs < length rest"
            by (rule skip_ws_Cons_length)
          show ?thesis
          proof (cases "parse_value n cs")
            case inner_value: (Parsed v rest')
            then have rest': "length rest' < length cs"
              by (rule parse_value_shorter)
            show ?thesis
            proof (cases "skip_ws rest'")
              case Nil
              with Cons Parsed inner inner_value show ?thesis by simp
            next
              case last: (Cons d ds)
              then have "length ds < length rest'"
                by (rule skip_ws_Cons_length)
              with rest' cs rest qs fuel have "2 * length ds + 1 < n"
                by simp
              then have "parse_members n ds \<noteq> Exhausted"
                by (rule M)
              with Cons Parsed inner inner_value last show ?thesis
                by (simp add: pcons_Exhausted)
            qed
          next
            case Failed
            with Cons Parsed inner show ?thesis by simp
          next
            case Exhausted
            moreover have "parse_value n cs \<noteq> Exhausted"
              using cs rest qs fuel by (intro V) simp
            ultimately show ?thesis by simp
          qed
        qed
      next
        case Failed
        with Cons show ?thesis by simp
      next
        case Exhausted
        then show ?thesis
          by (simp add: parse_chars_not_Exhausted)
      qed
    qed
  qed
qed

lemma parse_value_enough: "parse_value (2 * length s + 2) s \<noteq> Exhausted"
  using parse_enough [of "2 * length s + 2"] by simp

lemma JSON_parse_cases:
  "JSON_parse s = Inl SyntaxError \<or>
   (\<exists>v rest. parse_value (2 * length s + 2) s = Parsed v rest \<and> skip_ws rest = [] \<and>
      JSON_parse s = Inr v)"
  using parse_value_enough [of s] by (auto simp: JSON_parse_def split: presult.splits)

section \<open>The recent documents\<close>

text \<open>
  \<^verbatim>\<open>
  function saveToRecent(result) {
      recentDocuments.unshift({ id: result.document_id, category: result.category,
                                urgency: result.urgency, timestamp: new Date().toISOString() });
      if (recentDocuments.length > 10) { recentDocuments = recentDocuments.slice(0, 10); }
      localStorage.setItem('recentDocuments', JSON.stringify(recentDocuments));
      displayRecentDocuments();
  }
  function loadRecentDocuments() {
      const stored = localStorage.getItem('recentDocuments');
      if (stored) {
          recentDocuments = JSON.parse(stored);
          displayRecentDocuments();
      }
  }
  function displayRecentDocuments() {
      const recentDocs = document.getElementById('recentDocs');
      if (!recentDocs) { console.warn(...); return; }                  // part_000 only
      if (recentDocuments.length === 0) { recentDocs.innerHTML = '...'; return; }
      recentDocs.innerHTML = recentDocuments.map(doc => `... ${doc.id} ... ${doc.category} ...
          ${formatCategory(doc.category)} ... ${doc.urgency} ... ${formatTimestamp(doc.timestamp)} ...`)
          .join('');
  }
  \<close>
  The three functions have the same text in both scripts, but for the check of the element
  in \<^verbatim>\<open>displayRecentDocuments\<close>. \<^verbatim>\<open>src/app/static/app.js\<close> calls \<^verbatim>\<open>loadRecentDocuments\<close> when the
  page has loaded; \<^verbatim>\<open>src/unnamed/part_000\<close> defines it and never calls it.

  A function returns the state it leaves and the error it throws, if any. The store is
  taken to have room, so that \<^verbatim>\<open>setItem\<close> does not throw. The time of
  \<^verbatim>\<open>new Date().toISOString()\<close> is an argument. An item of the view keeps the timestamp it
  was rendered from, not the relative time shown for it.
\<close>

definition is_zero_literal :: "string \<Rightarrow> bool" where
  "is_zero_literal literal =
     list_all (\<lambda>c. c \<notin> set ''123456789'')
       (takeWhile (\<lambda>c. c \<noteq> CHR ''e'' \<and> c \<noteq> CHR ''E'') literal)"

text \<open>\<^verbatim>\<open>v.length === 0\<close>, which throws when \<open>v\<close> is \<^verbatim>\<open>null\<close> or \<^verbatim>\<open>undefined\<close>.\<close>

definition length_is_zero :: "jsval \<Rightarrow> js_error + bool" where
  "length_is_zero v =
     (case v of
        JUndefined \<Rightarrow> Inl TypeError
      | JNull \<Rightarrow> Inl TypeError
      | JArr xs \<Rightarrow> Inr (length xs = 0)
      | JStr s \<Rightarrow> Inr (length s = 0)
      | JObj members \<Rightarrow>
          Inr (case map_of members ''length'' of
                 Some (JNum literal) \<Rightarrow> is_zero_literal literal
               | _ \<Rightarrow> False)
      | _ \<Rightarrow> Inr False)"

fun map_throwing :: "('a \<Rightarrow> js_error + 'b) \<Rightarrow> 'a list \<Rightarrow> js_error + 'b list" where
  "map_throwing f [] = Inr []"
| "map_throwing f (x # xs) =
     (case f x of
        Inl e \<Rightarrow> Inl e
      | Inr y \<Rightarrow> (case map_throwing f xs of Inl e \<Rightarrow> Inl e | Inr ys \<Rightarrow> Inr (y # ys)))"

definition render_document :: "jsval \<Rightarrow> js_error + document_item" where
  "render_document doc =
     (case get_property doc ''id'' of
        Inl e \<Rightarrow> Inl e
      | Inr i \<Rightarrow>
          (case get_property doc ''category'' of
             Inl e \<Rightarrow> Inl e
           | Inr (JStr c) \<Rightarrow>
               (case get_property doc ''urgency'' of
                  Inl e \<Rightarrow> Inl e
                | Inr u \<Rightarrow>
                    (case get_property doc ''timestamp'' of
                       Inl e \<Rightarrow> Inl e
                     | Inr t \<Rightarrow>
                         Inr \<lparr>item_id = i, item_class = c, item_category = formatCategory c,
                              item_urgency = u, item_timestamp = t\<rparr>))
           | Inr _ \<Rightarrow> Inl TypeError))"

definition displayRecentDocuments :: "script \<Rightarrow> page \<Rightarrow> js_error option \<times> page" where
  "displayRecentDocuments script st =
     (if recentDocs st = None \<and> script = Unnamed_part then (None, st)
      else
        (case length_is_zero (recentDocuments st) of
           Inl e \<Rightarrow> (Some e, st)
         | Inr True \<Rightarrow>
             if recentDocs st = None then (Some TypeError, st)
             else (None, st\<lparr>recentDocs := Some Empty_state\<rparr>)
         | Inr False \<Rightarrow>
             (case recentDocuments st of
                JArr docs \<Rightarrow>
                  (case map_throwing render_document docs of
                     Inl e \<Rightarrow> (Some e, st)
                   | Inr items \<Rightarrow>
                       if recentDocs st = None then (Some TypeError, st)
                       else (None, st\<lparr>recentDocs := Some (Document_items items)\<rparr>))
              | _ \<Rightarrow> (Some TypeError, st))))"

definition recent_entry :: "process_result \<Rightarrow> string \<Rightarrow> jsval" where
  "recent_entry result now =
     JObj [(''id'', JStr (document_id result)), (''category'', JStr (category result)),
           (''urgency'', JStr (urgency result)), (''timestamp'', JStr now)]"

definition saveToRecent :: "script \<Rightarrow> process_result \<Rightarrow> string \<Rightarrow> page \<Rightarrow> js_error option \<times> page" where
  "saveToRecent script result now st =
     (case recentDocuments st of
        JArr docs \<Rightarrow>
          (let unshifted = recent_entry result now # docs;
               kept = (if length unshifted > 10 then take 10 unshifted else unshifted)
           in displayRecentDocuments script
                (st\<lparr>recentDocuments := JArr kept,
                    localStorage := (localStorage st)(''recentDocuments'' \<mapsto>
                      (case JSON_stringify (JArr kept) of None \<Rightarrow> ''undefined'' | Some t \<Rightarrow> t))\<rparr>))
      | _ \<Rightarrow> (Some TypeError, st))"

definition loadRecentDocuments :: "script \<Rightarrow> page \<Rightarrow> js_error option \<times> page" where
  "loadRecentDocuments script st =
     (case localStorage st ''recentDocuments'' of
        None \<Rightarrow> (None, st)
      | Some stored \<Rightarrow>
          if stored = [] then (None, st)
          else (case JSON_parse stored of
                  Inl e \<Rightarrow> (Some e, st)
                | Inr v \<Rightarrow> displayRecentDocuments script (st\<lparr>recentDocuments := v\<rparr>)))"

text \<open>
  Recording one result after the other, as successive uploads do: \<^verbatim>\<open>handleUpload\<close> catches
  what \<^verbatim>\<open>saveToRecent\<close> throws, and the state goes on as the throw left it.
\<close>

fun record_all :: "script \<Rightarrow> (process_result \<times> string) list \<Rightarrow> page \<Rightarrow> page" where
  "record_all script [] st = st"
| "record_all script ((result, now) # rest) st =
     record_all script rest (snd (saveToRecent script result now st))"

subsection \<open>Recording\<close>

lemma displayRecentDocuments_keeps:
  "recentDocuments (snd (displayRecentDocuments script st)) = recentDocuments st"
  "localStorage (snd (displayRecentDocuments script st)) = localStorage st"
  by (auto simp: displayRecentDocuments_def split: sum.splits bool.splits jsval.splits)

lemma saveToRecent_array:
  assumes "recentDocuments st = JArr docs"
  shows "recentDocuments (snd (saveToRecent script result now st)) =
      JArr (take 10 (recent_entry result now # docs))"
    and "localStorage (snd (saveToRecent script result now st)) ''recentDocuments'' =
      JSON_stringify (JArr (take 10 (recent_entry result now # docs)))"
proof -
  have kept: "(if length (recent_entry result now # docs) > 10
      then take 10 (recent_entry result now # docs) else recent_entry result now # docs) =
      take 10 (recent_entry result now # docs)"
    by simp
  show "recentDocuments (snd (saveToRecent script result now st)) =
      JArr (take 10 (recent_entry result now # docs))"
    unfolding saveToRecent_def assms jsval.case Let_def kept
    by (simp add: displayRecentDocuments_keeps)
  show "localStorage (snd (saveToRecent script result now st)) ''recentDocuments'' =
      JSON_stringify (JArr (take 10 (recent_entry result now # docs)))"
    unfolding saveToRecent_def assms jsval.case Let_def kept
    by (simp add: displayRecentDocuments_keeps)
qed

lemma take_append_take: "take n (xs @ take n ys) = take n (xs @ ys)"
  by (simp add: min_def)

definition entries_of :: "(process_result \<times> string) list \<Rightarrow> jsval list" where
  "entries_of rs = map (\<lambda>(result, now). recent_entry result now) rs"

lemma record_all_array:
  "recentDocuments st = JArr docs \<Longrightarrow>
   recentDocuments (record_all script rs st) =
     JArr (if rs = [] then docs else take 10 (rev (entries_of rs) @ docs))"
proof (induction rs arbitrary: st docs)
  case Nil
  then show ?case
    by simp
next
  case (Cons r rs)
  obtain result now where r: "r = (result, now)"
    by (cases r)
  have "recentDocuments (snd (saveToRecent script result now st)) =
      JArr (take 10 (recent_entry result now # docs))"
    using Cons.prems by (rule saveToRecent_array)
  then have "recentDocuments (record_all script (r # rs) st) =
      JArr (if rs = [] then take 10 (recent_entry result now # docs)
            else take 10 (rev (entries_of rs) @ take 10 (recent_entry result now # docs)))"
    using Cons.IH by (simp add: r)
  moreover have "take 10 (rev (entries_of rs) @ take 10 (recent_entry result now # docs)) =
      take 10 (rev (entries_of (r # rs)) @ docs)"
    by (simp only: take_append_take) (simp add: r entries_of_def)
  moreover have "take 10 (recent_entry result now # docs) = take 10 (rev (entries_of [r]) @ docs)"
    by (simp add: r entries_of_def)
  ultimately show ?case
    by (cases "rs = []") simp_all
qed

definition persisted :: "page \<Rightarrow> bool" where
  "persisted st \<longleftrightarrow> localStorage st ''recentDocuments'' = JSON_stringify (recentDocuments st)"

lemma saveToRecent_persisted:
  "recentDocuments st = JArr docs \<Longrightarrow> persisted (snd (saveToRecent script result now st))"
  by (simp add: persisted_def saveToRecent_array)

lemma record_all_persisted:
  "recentDocuments st = JArr docs \<Longrightarrow> rs \<noteq> [] \<or> persisted st \<Longrightarrow>
   persisted (record_all script rs st)"
proof (induction rs arbitrary: st docs)
  case Nil
  then show ?case by simp
next
  case (Cons r rs)
  obtain result now where r: "r = (result, now)"
    by (cases r)
  have "recentDocuments (snd (saveToRecent script result now st)) =
      JArr (take 10 (recent_entry result now # docs))"
    using Cons.prems(1) by (rule saveToRecent_array)
  moreover have "persisted (snd (saveToRecent script result now st))"
    using Cons.prems(1) by (rule saveToRecent_persisted)
  ultimately show ?case
    using Cons.IH by (simp add: r)
qed

lemma length_entries_of [simp]: "length (entries_of rs) = length rs"
  by (simp add: entries_of_def)

lemma record_all_more_than_ten:
  assumes "recentDocuments st = JArr docs" and "10 < length rs"
  shows "recentDocuments (record_all script rs st) = JArr (take 10 (rev (entries_of rs)))"
    and "localStorage (record_all script rs st) ''recentDocuments'' =
      JSON_stringify (JArr (take 10 (rev (entries_of rs))))"
proof -
  have ne: "rs \<noteq> []"
    using assms(2) by auto
  show seq: "recentDocuments (record_all script rs st) = JArr (take 10 (rev (entries_of rs)))"
    using record_all_array [OF assms(1), of script rs] ne assms(2) by simp
  have "persisted (record_all script rs st)"
    using record_all_persisted [OF assms(1), of rs script] ne by simp
  then show "localStorage (record_all script rs st) ''recentDocuments'' =
      JSON_stringify (JArr (take 10 (rev (entries_of rs))))"
    by (simp add: persisted_def seq)
qed

subsection \<open>Reading back what was written\<close>

lemma parse_chars_Cons:
  "parse_chars (c # cs) =
     (if c = CHR 0x22 then Parsed [] cs
      else if c = CHR 0x5C then
        (case cs of
           [] \<Rightarrow> Failed
         | e # es \<Rightarrow>
             if e = CHR ''u'' then
               (case parse_hex4 es of
                  None \<Rightarrow> Failed
                | Some n \<Rightarrow> pcons (char_of n) (parse_chars (drop 4 es)))
             else (case unescape e of
                     None \<Rightarrow> Failed
                   | Some x \<Rightarrow> pcons x (parse_chars es)))
      else if is_control c then Failed
      else pcons c (parse_chars cs))"
  by (cases cs) (auto simp: pcons_def)

lemma hex_value_hex_digit:
  assumes "d < 16"
  shows "hex_value (hex_digit d) = Some d"
proof -
  have "d \<in> {0, 1, 2, 3, 4, 5, 6, 7, 8, 9, 10, 11, 12, 13, 14, 15}"
    using assms by simp arith
  then show ?thesis
    by (elim insertE emptyE) (simp_all add: hex_value_def hex_digit_def)
qed

lemma parse_hex4_control:
  assumes "is_control c"
  shows "parse_hex4 (CHR ''0'' # CHR ''0'' # hex_digit (of_char c div 16)
            # hex_digit (of_char c mod 16) # rest) = Some (of_char c)"
proof -
  have "(of_char c :: nat) div 16 < 16"
    using assms by (simp add: is_control_def)
  then have hi: "hex_value (hex_digit (of_char c div 16)) = Some (of_char c div 16)"
    by (rule hex_value_hex_digit)
  have lo: "hex_value (hex_digit (of_char c mod 16)) = Some (of_char c mod 16)"
    by (rule hex_value_hex_digit) simp
  have zero: "hex_value CHR ''0'' = Some 0"
    by (simp add: hex_value_def)
  show ?thesis
    by (simp add: parse_hex4_def hi lo zero)
qed

lemma parse_chars_escape: "parse_chars (escape_char c @ rest) = pcons c (parse_chars rest)"
proof -
  consider (named) "c \<in> {CHR 0x22, CHR 0x5C, CHR 0x08, CHR 0x0C, CHR 0x0A, CHR 0x0D, CHR 0x09}"
    | (control) "c \<notin> {CHR 0x22, CHR 0x5C, CHR 0x08, CHR 0x0C, CHR 0x0A, CHR 0x0D, CHR 0x09}"
        "is_control c"
    | (plain) "c \<notin> {CHR 0x22, CHR 0x5C, CHR 0x08, CHR 0x0C, CHR 0x0A, CHR 0x0D, CHR 0x09}"
        "\<not> is_control c"
    by blast
  then show ?thesis
  proof cases
    case named
    then show ?thesis
      by (auto simp: escape_char_def parse_chars_Cons unescape_def)
  next
    case control
    then show ?thesis
      by (simp add: escape_char_def parse_chars_Cons parse_hex4_control)
  next
    case plain
    then show ?thesis
      by (simp add: escape_char_def parse_chars_Cons)
  qed
qed

lemma parse_chars_quoted:
  "parse_chars (concat (map escape_char s) @ CHR 0x22 # rest) = Parsed s rest"
  by (induction s) (simp_all add: parse_chars_Cons [of "CHR 0x22"] parse_chars_escape pcons_def)

lemma skip_ws_Cons: "\<not> is_json_space c \<Longrightarrow> skip_ws (c # cs) = c # cs"
  by (simp add: skip_ws_def)

lemma parse_value_quote:
  "parse_value (Suc n) (quote s @ rest) = Parsed (JStr s) rest"
  by (simp add: quote_def skip_ws_Cons is_json_space_def parse_chars_quoted)

lemma parse_members_more:
  "parse_members (Suc (Suc n)) (quote key @ CHR '':'' # quote s @ CHR '','' # rest) =
     pcons (key, JStr s) (parse_members (Suc n) rest)"
proof -
  have "parse_value (Suc n) (quote s @ CHR '','' # rest) = Parsed (JStr s) (CHR '','' # rest)"
    by (rule parse_value_quote)
  then show ?thesis
    by (simp add: quote_def [of key] skip_ws_Cons is_json_space_def parse_chars_quoted
        del: parse_value.simps)
qed

lemma parse_members_last:
  "parse_members (Suc (Suc n)) (quote key @ CHR '':'' # quote s @ CHR ''}'' # rest) =
     Parsed [(key, JStr s)] rest"
proof -
  have "parse_value (Suc n) (quote s @ CHR ''}'' # rest) = Parsed (JStr s) (CHR ''}'' # rest)"
    by (rule parse_value_quote)
  then show ?thesis
    by (simp add: quote_def [of key] skip_ws_Cons is_json_space_def parse_chars_quoted
        del: parse_value.simps)
qed

definition entry_text :: "process_result \<times> string \<Rightarrow> string" where
  "entry_text r =
     CHR ''{'' # quote ''id'' @ CHR '':'' # quote (document_id (fst r)) @
     CHR '','' # quote ''category'' @ CHR '':'' # quote (category (fst r)) @
     CHR '','' # quote ''urgency'' @ CHR '':'' # quote (urgency (fst r)) @
     CHR '','' # quote ''timestamp'' @ CHR '':'' # quote (snd r) @ ''}''"

lemma stringify_entry:
  "JSON_stringify (recent_entry (fst r) (snd r)) = Some (entry_text r)"
  by (simp add: recent_entry_def entry_text_def)

lemma stringify_entries:
  "JSON_stringify (JArr (entries_of rs)) = Some (CHR ''['' # join (map entry_text rs) '','' @ '']'')"
proof -
  have "map (\<lambda>x. case JSON_stringify x of None \<Rightarrow> ''null'' | Some t \<Rightarrow> t) (entries_of rs) =
      map entry_text rs"
    using stringify_entry by (simp add: entries_of_def case_prod_unfold)
  then show ?thesis
    by simp
qed

lemma entry_text_first: "\<exists>t. entry_text r = CHR ''{'' # t"
  by (simp add: entry_text_def)

lemma parse_value_object:
  assumes "parse_members n (quote key @ u) = Parsed members rest"
  shows "parse_value (Suc n) (CHR ''{'' # quote key @ u) = Parsed (make_object members) rest"
proof -
  have "skip_ws (quote key @ u) = quote key @ u" and "\<exists>t. quote key @ u = CHR 0x22 # t"
    by (simp_all add: quote_def skip_ws_Cons is_json_space_def)
  then obtain t where "skip_ws (quote key @ u) = CHR 0x22 # t"
    by auto
  with assms show ?thesis
    by (simp add: skip_ws_Cons is_json_space_def)
qed

lemma parse_value_entry:
  "parse_value (Suc (Suc (Suc (Suc (Suc (Suc n)))))) (entry_text r @ rest) =
     Parsed (recent_entry (fst r) (snd r)) rest"
proof -
  have "parse_members (Suc (Suc (Suc (Suc (Suc n)))))
      (quote ''id'' @ CHR '':'' # quote (document_id (fst r)) @
       CHR '','' # quote ''category'' @ CHR '':'' # quote (category (fst r)) @
       CHR '','' # quote ''urgency'' @ CHR '':'' # quote (urgency (fst r)) @
       CHR '','' # quote ''timestamp'' @ CHR '':'' # quote (snd r) @ CHR ''}'' # rest) =
     Parsed [(''id'', JStr (document_id (fst r))), (''category'', JStr (category (fst r))),
             (''urgency'', JStr (urgency (fst r))), (''timestamp'', JStr (snd r))] rest"
    by (simp only: parse_members_more parse_members_last append_assoc append_Cons)
      (simp add: pcons_def)
  then have "parse_value (Suc (Suc (Suc (Suc (Suc (Suc n))))))
      (CHR ''{'' # quote ''id'' @ CHR '':'' # quote (document_id (fst r)) @
       CHR '','' # quote ''category'' @ CHR '':'' # quote (category (fst r)) @
       CHR '','' # quote ''urgency'' @ CHR '':'' # quote (urgency (fst r)) @
       CHR '','' # quote ''timestamp'' @ CHR '':'' # quote (snd r) @ CHR ''}'' # rest) =
     Parsed (make_object
            [(''id'', JStr (document_id (fst r))), (''category'', JStr (category (fst r))),
             (''urgency'', JStr (urgency (fst r))), (''timestamp'', JStr (snd r))]) rest"
    by (rule parse_value_object)
  moreover have "make_object
            [(''id'', JStr (document_id (fst r))), (''category'', JStr (category (fst r))),
             (''urgency'', JStr (urgency (fst r))), (''timestamp'', JStr (snd r))] =
      recent_entry (fst r) (snd r)"
    by (simp add: make_object_def recent_entry_def)
  ultimately show ?thesis
    by (simp add: entry_text_def del: parse_value.simps)
qed

lemma join_Cons2: "join (w # ws) sep = (if ws = [] then w else w @ sep @ join ws sep)"
  by (cases ws) auto

lemma parse_elements_entries:
  "rs \<noteq> [] \<Longrightarrow> length rs + 6 \<le> n \<Longrightarrow>
   parse_elements n (join (map entry_text rs) '','' @ CHR '']'' # rest) =
     Parsed (entries_of rs) rest"
proof (induction rs arbitrary: n)
  case Nil
  then show ?case by simp
next
  case (Cons r rs)
  define m where "m = n - 7"
  have n: "n = Suc (Suc (Suc (Suc (Suc (Suc (Suc m))))))" and m: "length rs \<le> m"
    using Cons.prems(2) by (simp_all add: m_def)
  have val: "parse_value (Suc (Suc (Suc (Suc (Suc (Suc m)))))) (entry_text r @ u) =
      Parsed (recent_entry (fst r) (snd r)) u" for u
    by (rule parse_value_entry)
  show ?case
  proof (cases "rs = []")
    case True
    then show ?thesis
      using val [of "CHR '']'' # rest"]
      by (simp add: n entries_of_def skip_ws_Cons is_json_space_def case_prod_unfold
          del: parse_value.simps)
  next
    case False
    have "parse_elements (Suc (Suc (Suc (Suc (Suc (Suc m))))))
        (join (map entry_text rs) '','' @ CHR '']'' # rest) = Parsed (entries_of rs) rest"
      using False m by (intro Cons.IH) simp_all
    then show ?thesis
      using False val [of "CHR '','' # join (map entry_text rs) '','' @ CHR '']'' # rest"]
      by (simp add: n join_Cons2 entries_of_def skip_ws_Cons is_json_space_def pcons_def
          case_prod_unfold del: parse_value.simps parse_elements.simps(2)
          add: parse_elements.simps(2) [of "Suc (Suc (Suc (Suc (Suc (Suc m)))))"])
  qed
qed

lemma length_join_entries: "length rs \<le> length (join (map entry_text rs) sep)"
proof (induction rs)
  case Nil
  show ?case by simp
next
  case (Cons r rs)
  have "1 \<le> length (entry_text r)"
    by (simp add: entry_text_def)
  with Cons show ?case
    by (simp add: join_Cons2)
qed

lemma JSON_parse_Suc:
  "JSON_parse s =
     (case parse_value (Suc (2 * length s + 1)) s of
        Parsed v rest \<Rightarrow> if skip_ws rest = [] then Inr v else Inl SyntaxError
      | Failed \<Rightarrow> Inl SyntaxError
      | Exhausted \<Rightarrow> Inl SyntaxError)"
  by (simp add: JSON_parse_def)

lemma JSON_parse_entries:
  "JSON_parse (CHR ''['' # join (map entry_text rs) '','' @ '']'') = Inr (JArr (entries_of rs))"
proof (cases "rs = []")
  case True
  have "parse_value (Suc fuel) ''[]'' = Parsed (JArr []) []" for fuel
    by (simp add: skip_ws_def is_json_space_def)
  from this [of 5] True show ?thesis
    by (simp add: JSON_parse_Suc entries_of_def skip_ws_def)
next
  case False
  let ?text = "CHR ''['' # join (map entry_text rs) '','' @ '']''"
  obtain r rs' where rs: "rs = r # rs'"
    using False by (cases rs) auto
  obtain t0 where "entry_text r = CHR ''{'' # t0"
    using entry_text_first [of r] by blast
  then have "\<exists>t. join (map entry_text rs) '','' @ '']'' = CHR ''{'' # t"
    by (cases "rs' = []") (simp_all add: rs join_Cons2)
  then obtain t where first: "join (map entry_text rs) '','' @ '']'' = CHR ''{'' # t"
    by blast
  have "length rs + 6 \<le> 2 * length ?text + 1"
    using length_join_entries [of rs "'',''"] False by (cases rs) auto
  then have "parse_elements (2 * length ?text + 1) (join (map entry_text rs) '','' @ CHR '']'' # [])
      = Parsed (entries_of rs) []"
    using False by (intro parse_elements_entries)
  then have "parse_value (Suc (2 * length ?text + 1)) ?text = Parsed (JArr (entries_of rs)) []"
    using first by (simp add: skip_ws_Cons is_json_space_def del: parse_elements.simps)
  then show ?thesis
    by (simp add: JSON_parse_Suc skip_ws_def del: parse_value.simps)
qed

subsection \<open>The claims about the recent documents\<close>

lemma entries_of_take: "take n (entries_of rs) = entries_of (take n rs)"
  by (simp add: entries_of_def take_map)

lemma entries_of_rev: "rev (entries_of rs) = entries_of (rev rs)"
  by (simp add: entries_of_def rev_map)

lemma entries_of_Cons: "recent_entry result now # entries_of rs = entries_of ((result, now) # rs)"
  by (simp add: entries_of_def)

lemma JSON_roundtrip_entries:
  "JSON_stringify (JArr (entries_of rs)) = Some text \<Longrightarrow> JSON_parse text = Inr (JArr (entries_of rs))"
  using JSON_parse_entries [of rs] by (simp add: stringify_entries del: JSON_stringify.simps)

text \<open>
  Claim C5. With the sequence an array, as it is from the start and after every recording,
  one recording puts the new entry in front, keeps the first ten and writes the whole
  sequence to the store. After more than ten recordings the sequence is the ten entries
  recorded last, the latest first, and the store holds the text of exactly that sequence.
\<close>

theorem record_keeps_ten_most_recent:
  "recentDocuments st = JArr docs \<longrightarrow>
     recentDocuments (snd (saveToRecent script result now st)) =
       JArr (take 10 (recent_entry result now # docs)) \<and>
     localStorage (snd (saveToRecent script result now st)) ''recentDocuments'' =
       JSON_stringify (recentDocuments (snd (saveToRecent script result now st))) \<and>
     (10 < length rs \<longrightarrow>
        recentDocuments (record_all script rs st) = JArr (entries_of (take 10 (rev rs))) \<and>
        localStorage (record_all script rs st) ''recentDocuments'' =
          JSON_stringify (JArr (entries_of (take 10 (rev rs)))) \<and>
        (\<exists>stored. localStorage (record_all script rs st) ''recentDocuments'' = Some stored \<and>
           JSON_parse stored = Inr (JArr (entries_of (take 10 (rev rs))))))"
proof (intro impI conjI)
  assume array: "recentDocuments st = JArr docs"
  show "recentDocuments (snd (saveToRecent script result now st)) =
      JArr (take 10 (recent_entry result now # docs))"
    using array by (rule saveToRecent_array)
  show "localStorage (snd (saveToRecent script result now st)) ''recentDocuments'' =
      JSON_stringify (recentDocuments (snd (saveToRecent script result now st)))"
    using saveToRecent_persisted [OF array] by (simp add: persisted_def)
  assume many: "10 < length rs"
  show seq: "recentDocuments (record_all script rs st) = JArr (entries_of (take 10 (rev rs)))"
    using record_all_more_than_ten(1) [OF array many]
    by (simp add: entries_of_take entries_of_rev)
  show stored: "localStorage (record_all script rs st) ''recentDocuments'' =
      JSON_stringify (JArr (entries_of (take 10 (rev rs))))"
    using record_all_more_than_ten(2) [OF array many]
    by (simp add: entries_of_take entries_of_rev)
  show "\<exists>stored. localStorage (record_all script rs st) ''recentDocuments'' = Some stored \<and>
      JSON_parse stored = Inr (JArr (entries_of (take 10 (rev rs))))"
    unfolding stored using JSON_roundtrip_entries [of "take 10 (rev rs)"]
    by (simp add: stringify_entries del: JSON_stringify.simps)
qed

definition eleven_results :: "(process_result \<times> string) list" where
  "eleven_results =
     map (\<lambda>d. (a_result\<lparr>document_id := d\<rparr>, ''2026-01-01T00:00:00.000Z''))
       [''d1'', ''d2'', ''d3'', ''d4'', ''d5'', ''d6'', ''d7'', ''d8'', ''d9'', ''d10'', ''d11'']"

theorem record_keeps_ten_most_recent_witness:
  "recentDocuments a_page = JArr [] \<and> 10 < length eleven_results \<and>
   recentDocuments (record_all Static_app eleven_results a_page) =
     JArr (entries_of (map (\<lambda>d. (a_result\<lparr>document_id := d\<rparr>, ''2026-01-01T00:00:00.000Z''))
       [''d11'', ''d10'', ''d9'', ''d8'', ''d7'', ''d6'', ''d5'', ''d4'', ''d3'', ''d2'']))"
  using record_keeps_ten_most_recent [of a_page "[]" Static_app a_result "[]" eleven_results]
  by (simp add: a_page_def eleven_results_def)

lemma render_entry: "\<exists>item. render_document (recent_entry result now) = Inr item"
  by (simp add: render_document_def recent_entry_def get_property_def)

lemma render_entries:
  "\<exists>items. map_throwing render_document (entries_of rs) = Inr items"
proof (induction rs)
  case Nil
  show ?case by (simp add: entries_of_def)
next
  case (Cons r rs)
  then obtain items where "map_throwing render_document (entries_of rs) = Inr items"
    by blast
  moreover obtain item where "render_document (recent_entry (fst r) (snd r)) = Inr item"
    using render_entry by blast
  ultimately show ?case
    by (simp add: entries_of_def case_prod_unfold)
qed

lemma displayRecentDocuments_entries:
  assumes "recentDocuments st = JArr (entries_of rs)" and "recentDocs st \<noteq> None"
  shows "fst (displayRecentDocuments script st) = None"
proof -
  obtain items where items: "map_throwing render_document (entries_of rs) = Inr items"
    using render_entries by blast
  obtain view where view: "recentDocs st = Some view"
    using assms(2) by auto
  show ?thesis
    by (cases "rs = []")
      (simp_all add: displayRecentDocuments_def length_is_zero_def assms(1) view items)
qed

text \<open>
  Claim C7. The text that \<^verbatim>\<open>JSON.stringify\<close> writes for a sequence of entries is read back
  by \<^verbatim>\<open>JSON.parse\<close> as the same sequence. So when a recording has persisted the sequence and
  the page is loaded again, with whatever its variable holds then (the empty array, when the
  script starts) and the store as the recording left it, \<^verbatim>\<open>loadRecentDocuments\<close> makes the
  variable the sequence that was persisted, in the same order, and throws nothing when the
  element of the list is there.
\<close>

theorem persist_reload_identity:
  "JSON_parse (case JSON_stringify (JArr (entries_of rs)) of None \<Rightarrow> ''undefined'' | Some t \<Rightarrow> t) =
     Inr (JArr (entries_of rs)) \<and>
   (recentDocuments st = JArr (entries_of rs) \<and>
    localStorage fresh = localStorage (snd (saveToRecent script result now st)) \<longrightarrow>
      recentDocuments (snd (saveToRecent script result now st)) =
        JArr (entries_of (take 10 ((result, now) # rs))) \<and>
      recentDocuments (snd (loadRecentDocuments script fresh)) =
        recentDocuments (snd (saveToRecent script result now st)) \<and>
      (recentDocs fresh \<noteq> None \<longrightarrow> fst (loadRecentDocuments script fresh) = None))"
proof (intro conjI impI)
  show "JSON_parse (case JSON_stringify (JArr (entries_of rs)) of None \<Rightarrow> ''undefined'' | Some t \<Rightarrow> t) =
     Inr (JArr (entries_of rs))"
    by (simp add: stringify_entries JSON_parse_entries del: JSON_stringify.simps)
next
  assume saved: "recentDocuments st = JArr (entries_of rs) \<and>
    localStorage fresh = localStorage (snd (saveToRecent script result now st))"
  then have array: "recentDocuments st = JArr (entries_of rs)"
    by simp
  define st1 where "st1 = snd (saveToRecent script result now st)"
  let ?kept = "take 10 ((result, now) # rs)"
  have seq: "recentDocuments st1 = JArr (entries_of ?kept)"
    using saveToRecent_array(1) [OF array, of script result now]
    by (simp only: st1_def entries_of_Cons entries_of_take)
  have "localStorage st1 ''recentDocuments'' = JSON_stringify (JArr (entries_of ?kept))"
    using saveToRecent_array(2) [OF array, of script result now]
    by (simp only: st1_def entries_of_Cons entries_of_take)
  then have "localStorage st1 ''recentDocuments'' =
      Some (CHR ''['' # join (map entry_text ?kept) '','' @ '']'')"
    by (simp only: stringify_entries)
  then have stored: "localStorage fresh ''recentDocuments'' =
      Some (CHR ''['' # join (map entry_text ?kept) '','' @ '']'')"
    using saved by (simp only: st1_def)
  have load: "loadRecentDocuments script fresh =
      displayRecentDocuments script (fresh\<lparr>recentDocuments := JArr (entries_of ?kept)\<rparr>)"
    by (simp add: loadRecentDocuments_def stored JSON_parse_entries del: take_Cons_numeral)
  show "recentDocuments (snd (saveToRecent script result now st)) = JArr (entries_of ?kept)"
    using seq by (simp only: st1_def)
  show "recentDocuments (snd (loadRecentDocuments script fresh)) =
      recentDocuments (snd (saveToRecent script result now st))"
    using seq by (simp only: load displayRecentDocuments_keeps st1_def) simp
  assume "recentDocs fresh \<noteq> None"
  then show "fst (loadRecentDocuments script fresh) = None"
    unfolding load by (intro displayRecentDocuments_entries [of _ ?kept]) simp_all
qed

definition a_recorded_page :: page where
  "a_recorded_page =
     snd (saveToRecent Static_app a_result ''t1''
       (a_page\<lparr>recentDocuments := JArr (entries_of [(a_result, ''t0'')])\<rparr>))"

definition a_reloaded_page :: page where
  "a_reloaded_page = a_page\<lparr>localStorage := localStorage a_recorded_page\<rparr>"

theorem persist_reload_identity_witness:
  "recentDocuments (a_page\<lparr>recentDocuments := JArr (entries_of [(a_result, ''t0'')])\<rparr>) =
     JArr (entries_of [(a_result, ''t0'')]) \<and>
   localStorage a_reloaded_page = localStorage a_recorded_page \<and>
   recentDocuments a_reloaded_page = JArr [] \<and>
   recentDocs a_reloaded_page \<noteq> None \<and>
   recentDocuments a_recorded_page = JArr (entries_of [(a_result, ''t1''), (a_result, ''t0'')]) \<and>
   recentDocuments (snd (loadRecentDocuments Static_app a_reloaded_page)) =
     JArr (entries_of [(a_result, ''t1''), (a_result, ''t0'')]) \<and>
   fst (loadRecentDocuments Static_app a_reloaded_page) = None"
  using persist_reload_identity [of "[(a_result, ''t0'')]"
      "a_page\<lparr>recentDocuments := JArr (entries_of [(a_result, ''t0'')])\<rparr>" a_reloaded_page
      Static_app a_result "''t1''"]
  by (simp add: a_reloaded_page_def a_recorded_page_def a_page_def)

text \<open>
  Claim C1, as the code has it. Loading throws nothing and leaves the sequence as it is
  when the store has no text or the empty text, and it throws nothing and installs the
  sequence when the store has the text of a sequence of entries. A text that is not JSON
  makes \<^verbatim>\<open>JSON.parse\<close> throw a \<^verbatim>\<open>SyntaxError\<close>, which \<^verbatim>\<open>loadRecentDocuments\<close> does not catch;
  the sequence is left as it is.
\<close>

theorem loadRecentDocuments_outcomes:
  "(localStorage st ''recentDocuments'' = None \<or> localStorage st ''recentDocuments'' = Some [] \<longrightarrow>
      loadRecentDocuments script st = (None, st)) \<and>
   (localStorage st ''recentDocuments'' = Some stored \<and> stored \<noteq> [] \<and>
      JSON_parse stored = Inl e \<longrightarrow>
      loadRecentDocuments script st = (Some SyntaxError, st)) \<and>
   (localStorage st ''recentDocuments'' = JSON_stringify (JArr (entries_of rs)) \<and>
      recentDocs st \<noteq> None \<longrightarrow>
      fst (loadRecentDocuments script st) = None \<and>
      recentDocuments (snd (loadRecentDocuments script st)) = JArr (entries_of rs))"
proof (intro conjI impI)
  assume "localStorage st ''recentDocuments'' = None \<or> localStorage st ''recentDocuments'' = Some []"
  then show "loadRecentDocuments script st = (None, st)"
    by (auto simp: loadRecentDocuments_def)
next
  assume bad: "localStorage st ''recentDocuments'' = Some stored \<and> stored \<noteq> [] \<and>
      JSON_parse stored = Inl e"
  then have "e = SyntaxError"
    by (auto simp: JSON_parse_def split: presult.splits if_splits)
  with bad show "loadRecentDocuments script st = (Some SyntaxError, st)"
    by (simp add: loadRecentDocuments_def)
next
  assume good: "localStorage st ''recentDocuments'' = JSON_stringify (JArr (entries_of rs)) \<and>
      recentDocs st \<noteq> None"
  then have stored: "localStorage st ''recentDocuments'' =
      Some (CHR ''['' # join (map entry_text rs) '','' @ '']'')"
    by (simp only: stringify_entries)
  have load: "loadRecentDocuments script st =
      displayRecentDocuments script (st\<lparr>recentDocuments := JArr (entries_of rs)\<rparr>)"
    by (simp add: loadRecentDocuments_def stored JSON_parse_entries)
  show "fst (loadRecentDocuments script st) = None"
    unfolding load using good by (intro displayRecentDocuments_entries [of _ rs]) simp_all
  show "recentDocuments (snd (loadRecentDocuments script st)) = JArr (entries_of rs)"
    unfolding load by (simp add: displayRecentDocuments_keeps)
qed

definition malformed_store :: page where
  "malformed_store = a_page\<lparr>localStorage := [''recentDocuments'' \<mapsto> ''{broken'']\<rparr>"

lemma JSON_parse_malformed: "JSON_parse ''{broken'' = Inl SyntaxError"
  by (simp add: JSON_parse_def skip_ws_def is_json_space_def eval_nat_numeral)

theorem loadRecentDocuments_outcomes_witness:
  "localStorage a_page ''recentDocuments'' = None \<and>
   loadRecentDocuments Static_app a_page = (None, a_page) \<and>
   localStorage malformed_store ''recentDocuments'' = Some ''{broken'' \<and>
   JSON_parse ''{broken'' = Inl SyntaxError \<and>
   loadRecentDocuments Static_app malformed_store = (Some SyntaxError, malformed_store)"
  using loadRecentDocuments_outcomes [of a_page Static_app "[]" SyntaxError "[]"]
    loadRecentDocuments_outcomes [of malformed_store Static_app "''{broken''" SyntaxError "[]"]
    JSON_parse_malformed
  by (simp add: a_page_def malformed_store_def)

text \<open>
  Claim C1 as stated fails: with a stored text that is not JSON, loading throws.
\<close>

theorem loadRecentDocuments_malformed_counterexample:
  "localStorage malformed_store ''recentDocuments'' = Some ''{broken'' \<and>
   fst (loadRecentDocuments Static_app malformed_store) = Some SyntaxError \<and>
   fst (loadRecentDocuments Unnamed_part malformed_store) = Some SyntaxError"
  by (simp add: loadRecentDocuments_def malformed_store_def a_page_def JSON_parse_malformed)

end
